theory Spec2Isabelle
  imports Main "HOL-Library.Sublist"
begin

section \<open>Data model\<close>

text \<open>
  The walker of \<^verbatim>\<open>src/index.js\<close> builds plain objects
  \<^verbatim>\<open>{ type: 'directory', name, path, children }\<close> and
  \<^verbatim>\<open>{ type: 'file', name, path, content }\<close>. The \<^verbatim>\<open>type\<close> tag is the constructor.
\<close>

datatype node =
    Directory (name: string) (path: string) (children: "node list")
  | File (name: string) (path: string) (content: string)

text \<open>The defaults of the prompts.\<close>

definition DEFAULT_EXCLUDES :: "string list" where
  "DEFAULT_EXCLUDES = [''node_modules'', ''.git'', ''.DS_Store'']"

definition DEFAULT_FILE_SIZE_LIMIT :: nat where
  "DEFAULT_FILE_SIZE_LIMIT = 1024 * 1024"

section \<open>The platform: \<^verbatim>\<open>path\<close>, \<^verbatim>\<open>fs\<close>, \<^verbatim>\<open>isbinaryfile\<close>, \<^verbatim>\<open>process\<close>\<close>

subsection \<open>Path strings (POSIX flavour of Node's \<^verbatim>\<open>path\<close> module)\<close>

text \<open>
  \<^verbatim>\<open>path.join\<close> and \<^verbatim>\<open>path.relative\<close> belong to the runtime, not to the program. They
  are modelled on segment lists after the POSIX algorithm of the runtime: a path is split
  at \<^verbatim>\<open>/\<close>, empty segments and \<^verbatim>\<open>.\<close> are dropped, \<^verbatim>\<open>..\<close> removes the segment before it
  (or is kept, for a relative path, when there is none), and the result is joined with
  \<^verbatim>\<open>/\<close> again. \<^verbatim>\<open>path.join\<close> is given its two arguments; the working directory, which
  \<^verbatim>\<open>path.relative\<close> reads from the process, is an argument and is an absolute path.
  A string is a list of characters; what the program does with strings (joining,
  comparing, searching) does not depend on how a character is encoded.
\<close>

fun split_sep :: "string \<Rightarrow> string list" where
  "split_sep [] = [[]]"
| "split_sep (c # s) =
     (if c = CHR ''/'' then [] # split_sep s
      else (case split_sep s of [] \<Rightarrow> [[c]] | x # xs \<Rightarrow> (c # x) # xs))"

fun join_sep :: "string list \<Rightarrow> string" where
  "join_sep [] = []"
| "join_sep [x] = x"
| "join_sep (x # y # ys) = x @ CHR ''/'' # join_sep (y # ys)"

definition normalizeStep :: "bool \<Rightarrow> string list \<Rightarrow> string \<Rightarrow> string list" where
  "normalizeStep allowAboveRoot res seg =
     (if seg = [] \<or> seg = ''.'' then res
      else if seg = ''..'' then
        (if res \<noteq> [] \<and> last res \<noteq> ''..'' then butlast res
         else if allowAboveRoot then res @ [''..'']
         else res)
      else res @ [seg])"

definition normalizeSegs :: "bool \<Rightarrow> string \<Rightarrow> string list" where
  "normalizeSegs allowAboveRoot p = foldl (normalizeStep allowAboveRoot) [] (split_sep p)"

definition normalizeString :: "string \<Rightarrow> bool \<Rightarrow> string" where
  "normalizeString p allowAboveRoot = join_sep (normalizeSegs allowAboveRoot p)"

definition isAbsolute :: "string \<Rightarrow> bool" where
  "isAbsolute p = (case p of [] \<Rightarrow> False | c # _ \<Rightarrow> c = CHR ''/'')"

definition path_normalize :: "string \<Rightarrow> string" where
  "path_normalize p =
     (if p = [] then ''.''
      else
        let trailingSeparator = (last p = CHR ''/'');
            q = normalizeString p (\<not> isAbsolute p)
        in if q = [] then (if isAbsolute p then ''/'' else if trailingSeparator then ''./'' else ''.'')
           else
             let q' = (if trailingSeparator then q @ ''/'' else q)
             in if isAbsolute p then CHR ''/'' # q' else q')"

definition path_join :: "string \<Rightarrow> string \<Rightarrow> string" where
  "path_join a b =
     (if a = [] \<and> b = [] then ''.''
      else if a = [] then path_normalize b
      else if b = [] then path_normalize a
      else path_normalize (a @ CHR ''/'' # b))"

definition resolveSegs :: "string \<Rightarrow> string \<Rightarrow> string list" where
  "resolveSegs wd p = normalizeSegs False (if isAbsolute p then p else wd @ CHR ''/'' # p)"

definition path_resolve :: "string \<Rightarrow> string \<Rightarrow> string" where
  "path_resolve wd p = CHR ''/'' # join_sep (resolveSegs wd p)"

fun relativeSegs :: "string list \<Rightarrow> string list \<Rightarrow> string list" where
  "relativeSegs (f # fs) (t # ts) =
     (if f = t then relativeSegs fs ts
      else replicate (Suc (length fs)) ''..'' @ t # ts)"
| "relativeSegs fs ts = replicate (length fs) ''..'' @ ts"

text \<open>\<open>wd\<close> is the working directory against which both arguments are resolved.\<close>

definition path_relative :: "string \<Rightarrow> string \<Rightarrow> string \<Rightarrow> string" where
  "path_relative wd from to =
     (if from = to then []
      else join_sep (relativeSegs (resolveSegs wd from) (resolveSegs wd to)))"

subsection \<open>The file system as the walker sees it\<close>

text \<open>
  Each synchronous call either returns or throws; a throw is \<open>Inl\<close> of the error's
  message. \<open>cwd\<close> is \<^verbatim>\<open>process.cwd()\<close>. Of the result of \<^verbatim>\<open>statSync\<close> the walker reads
  \<^verbatim>\<open>isDirectory()\<close> and \<^verbatim>\<open>size\<close>, a number of bytes. The file system does not change
  during a walk: a call with the same path gives the same answer.
\<close>

record stats =
  isDirectory :: bool
  size_bytes :: nat

record platform =
  cwd :: string
  readdirSync :: "string \<Rightarrow> string + string list"
  statSync :: "string \<Rightarrow> string + stats"
  isBinaryFileSync :: "string \<Rightarrow> string + bool"
  readFileSync :: "string \<Rightarrow> string + string"

section \<open>The tree walker\<close>

text \<open>\<^verbatim>\<open>relPath.includes(ex)\<close>: \<open>ex\<close> occurs in \<open>s\<close> as a contiguous substring.\<close>

fun str_includes :: "string \<Rightarrow> string \<Rightarrow> bool" where
  "str_includes [] ex = (ex = [])"
| "str_includes (c # s) ex = (prefix ex (c # s) \<or> str_includes s ex)"

definition excluded :: "string list \<Rightarrow> string \<Rightarrow> bool" where
  "excluded excludes relPath = list_ex (\<lambda>ex. str_includes relPath ex) excludes"

text \<open>
  The body of \<^verbatim>\<open>for (const file of dirEntries)\<close> in \<^verbatim>\<open>walkDir\<close>. \<open>files\<close> is the array
  the loop pushes to; every \<^verbatim>\<open>continue\<close> goes on with the remaining entries and the
  array as it is. \<open>rec\<close> stands for the recursive call
  \<^verbatim>\<open>walkDir(fullPath, excludes, fileSizeLimit, [])\<close>, which returns \<open>None\<close> when it does not
  return. The \<^verbatim>\<open>log\<close> calls only print to the console and are left out.
\<close>

fun walkLoop ::
  "(string \<Rightarrow> node list option) \<Rightarrow> platform \<Rightarrow> string \<Rightarrow> string list \<Rightarrow> nat \<Rightarrow>
     string list \<Rightarrow> node list \<Rightarrow> node list option" where
  "walkLoop rec pf dir excludes fileSizeLimit [] files = Some files"
| "walkLoop rec pf dir excludes fileSizeLimit (file # rest) files =
     (let fullPath = path_join dir file;
          relPath = path_relative (cwd pf) (cwd pf) fullPath
      in if excluded excludes relPath
         then walkLoop rec pf dir excludes fileSizeLimit rest files
         else
           (case statSync pf fullPath of
              Inl err \<Rightarrow> walkLoop rec pf dir excludes fileSizeLimit rest files
            | Inr stat \<Rightarrow>
                if isDirectory stat then
                  (case rec fullPath of
                     None \<Rightarrow> None
                   | Some sub \<Rightarrow>
                       walkLoop rec pf dir excludes fileSizeLimit rest
                         (files @ [Directory file relPath sub]))
                else if size_bytes stat > fileSizeLimit
                then walkLoop rec pf dir excludes fileSizeLimit rest files
                else
                  (case isBinaryFileSync pf fullPath of
                     Inl err \<Rightarrow> walkLoop rec pf dir excludes fileSizeLimit rest files
                   | Inr isBinary \<Rightarrow>
                       if isBinary
                       then walkLoop rec pf dir excludes fileSizeLimit rest files
                       else
                         (case readFileSync pf fullPath of
                            Inl err \<Rightarrow> walkLoop rec pf dir excludes fileSizeLimit rest files
                          | Inr content' \<Rightarrow>
                              walkLoop rec pf dir excludes fileSizeLimit rest
                                (files @ [File file relPath content'])))))"

text \<open>
  \<^verbatim>\<open>walkDir(dir, excludes, fileSizeLimit, files = [])\<close>. The recursion follows the file
  system, which may loop through symbolic links, so the first argument bounds the depth
  of nested calls: \<open>None\<close> means that the bound was reached.
\<close>

fun walkDir ::
  "nat \<Rightarrow> platform \<Rightarrow> string \<Rightarrow> string list \<Rightarrow> nat \<Rightarrow> node list \<Rightarrow> node list option" where
  "walkDir 0 pf dir excludes fileSizeLimit files = None"
| "walkDir (Suc n) pf dir excludes fileSizeLimit files =
     (case readdirSync pf dir of
        Inl err \<Rightarrow> Some files
      | Inr dirEntries \<Rightarrow>
          walkLoop (\<lambda>d. walkDir n pf d excludes fileSizeLimit []) pf dir excludes fileSizeLimit
            dirEntries files)"

section \<open>The delimited-text serializer\<close>

text \<open>
  \<^verbatim>\<open>buildTxtOutput(files, output = [], parentPath = '')\<close> pushes to the shared array
  \<open>output\<close> and returns \<^verbatim>\<open>output.join('')\<close>; the value returned by a nested call is
  dropped, only its pushes remain. \<open>buildTxtOutput_push\<close> is the array after the loop.
\<close>

fun buildTxtOutput_push :: "node list \<Rightarrow> string list \<Rightarrow> string \<Rightarrow> string list" where
  "buildTxtOutput_push [] output parentPath = output"
| "buildTxtOutput_push (Directory nm p ch # rest) output parentPath =
     buildTxtOutput_push rest
       (buildTxtOutput_push ch output (path_join parentPath nm)) parentPath"
| "buildTxtOutput_push (File nm p c # rest) output parentPath =
     buildTxtOutput_push rest
       (output @ [''--- FILE: '' @ path_join parentPath nm @ '' ---\<newline>'', c @ ''\<newline>''])
       parentPath"

definition buildTxtOutput :: "node list \<Rightarrow> string list \<Rightarrow> string \<Rightarrow> string" where
  "buildTxtOutput files output parentPath = concat (buildTxtOutput_push files output parentPath)"

section \<open>The structured-markup serializer\<close>

subsection \<open>The document that \<^verbatim>\<open>buildXmlTree\<close> builds\<close>

text \<open>
  The nodes of the document of the markup library: an element with its name, its
  attributes in the order they were given, and its children; or a text node.
  \<^verbatim>\<open>parent.ele(name, attributes)\<close> makes an element without children and appends it to
  \<open>parent\<close>; \<^verbatim>\<open>element.txt(content)\<close> appends a text node to \<open>element\<close>. \<open>buildNode\<close>
  returns \<open>xmlParent\<close> as the calls leave it: with one more child, the element of the
  node, filled.
\<close>

datatype xml = Element string "(string \<times> string) list" "xml list" | Text string

definition appendChild :: "xml \<Rightarrow> xml \<Rightarrow> xml" where
  "appendChild parent child =
     (case parent of Element t a cs \<Rightarrow> Element t a (cs @ [child]) | Text s \<Rightarrow> Text s)"

definition ele :: "string \<Rightarrow> (string \<times> string) list \<Rightarrow> xml" where
  "ele t attrs = Element t attrs []"

definition txt' :: "xml \<Rightarrow> string \<Rightarrow> xml" where
  "txt' e s = appendChild e (Text s)"

fun buildNode :: "node \<Rightarrow> xml \<Rightarrow> xml" where
  "buildNode (Directory nm p ch) xmlParent =
     appendChild xmlParent (fold buildNode ch (ele ''directory'' [(''name'', nm), (''path'', p)]))"
| "buildNode (File nm p c) xmlParent =
     appendChild xmlParent (txt' (ele ''file'' [(''name'', nm), (''path'', p)]) c)"

text \<open>The \<^verbatim>\<open>repository\<close> element after \<^verbatim>\<open>files.forEach(f => buildNode(f, root))\<close>.\<close>

definition buildXmlDom :: "node list \<Rightarrow> xml" where
  "buildXmlDom files = fold buildNode files (ele ''repository'' [])"

subsection \<open>Writing the document\<close>

text \<open>
  Modelled from the spec: the writer of the markup library, which the sources call as
  \<^verbatim>\<open>root.end({ prettyPrint: true })\<close> and do not contain. The specification asks of it
  ``standard markup text-escaping'' that keeps \<^verbatim>\<open>< > & " '\<close> and control characters
  through a round trip: the five characters are written as their named entities, a
  control character as a character reference with two hexadecimal digits, in text and in
  attribute values alike.
\<close>

definition is_control :: "char \<Rightarrow> bool" where
  "is_control c = (of_char c < (32::nat) \<or> of_char c = (127::nat))"

text \<open>Modelled from the spec: the digits of a character reference.\<close>

definition hex_digit :: "nat \<Rightarrow> char" where
  "hex_digit k = ''0123456789ABCDEF'' ! k"

text \<open>Modelled from the spec: the escaped form of one character.\<close>

definition escape_char :: "char \<Rightarrow> string" where
  "escape_char c =
     (if c = CHR ''&'' then ''&amp;''
      else if c = CHR ''<'' then ''&lt;''
      else if c = CHR ''>'' then ''&gt;''
      else if c = CHR 0x22 then ''&quot;''
      else if c = CHR 0x27 then ''&apos;''
      else if is_control c
        then ''&#x'' @ [hex_digit (of_char c div 16), hex_digit (of_char c mod 16)] @ '';''
      else [c])"

text \<open>Modelled from the spec: text escaping, character by character.\<close>

definition xml_escape :: "string \<Rightarrow> string" where
  "xml_escape s = concat (map escape_char s)"

text \<open>
  Modelled from the spec: the output format, ``a document with XML declaration (version
  1.0, encoding UTF-8), root element named repository, child elements directory and
  file, each carrying name and path attributes; file element text content is the file
  body''. With \<^verbatim>\<open>prettyPrint\<close> an element that has child elements puts each child on a
  line of its own, two spaces deeper; an element that holds only text stays on one
  line; an element without children is written as an empty-element tag.
\<close>

definition write_attr :: "string \<times> string \<Rightarrow> string" where
  "write_attr kv = '' '' @ fst kv @ ''=\"'' @ xml_escape (snd kv) @ ''\"''"

text \<open>Modelled from the spec: the indentation of depth \<open>i\<close>, two spaces a level.\<close>

definition indent :: "nat \<Rightarrow> string" where
  "indent i = replicate (2 * i) CHR '' ''"

text \<open>Modelled from the spec: whether a node of the document is a text node.\<close>

fun is_text :: "xml \<Rightarrow> bool" where
  "is_text (Text s) = True"
| "is_text (Element t a cs) = False"

text \<open>Modelled from the spec: an element (or a text node) of depth \<open>i\<close>, written.\<close>

fun write_xml :: "nat \<Rightarrow> xml \<Rightarrow> string" where
  "write_xml i (Text s) = xml_escape s"
| "write_xml i (Element t a cs) =
     ''<'' @ t @ concat (map write_attr a) @
     (if cs = [] then ''/>''
      else if list_all is_text cs
        then ''>'' @ concat (map (write_xml i) cs) @ ''</'' @ t @ ''>''
      else ''>'' @
           concat (map (\<lambda>c. CHR 0x0A # indent (Suc i) @ write_xml (Suc i) c) cs) @
           CHR 0x0A # indent i @ ''</'' @ t @ ''>'')"

text \<open>Modelled from the spec: the declaration, a line break, and the root element.\<close>

definition xml_end :: "xml \<Rightarrow> string" where
  "xml_end root = ''<?xml version=\"1.0\" encoding=\"UTF-8\"?>'' @ CHR 0x0A # write_xml 0 root"

text \<open>
  \<^verbatim>\<open>buildXmlTree(files)\<close>: the document of \<open>buildXmlDom\<close>, written.
\<close>

definition buildXmlTree :: "node list \<Rightarrow> string" where
  "buildXmlTree files = xml_end (buildXmlDom files)"

subsection \<open>Reading the document back\<close>

text \<open>
  Modelled from the spec: ``a standard parser for that markup'', restricted to what the
  writer produces: the declaration, tags with quoted attribute values, text, the named
  entities and two-digit hexadecimal character references. An \<^verbatim>\<open>&\<close> that starts none
  of these stands for itself.
\<close>

definition hex_table :: "(char \<times> nat) list" where
  "hex_table =
     [(CHR ''0'', 0), (CHR ''1'', 1), (CHR ''2'', 2), (CHR ''3'', 3), (CHR ''4'', 4),
      (CHR ''5'', 5), (CHR ''6'', 6), (CHR ''7'', 7), (CHR ''8'', 8), (CHR ''9'', 9),
      (CHR ''A'', 10), (CHR ''B'', 11), (CHR ''C'', 12), (CHR ''D'', 13), (CHR ''E'', 14),
      (CHR ''F'', 15)]"

text \<open>Modelled from the spec: the character that the text after an \<^verbatim>\<open>&\<close> stands for, and how
  many characters of it are used.\<close>

definition decode_entity :: "string \<Rightarrow> (char \<times> nat) option" where
  "decode_entity s =
     (if prefix ''amp;'' s then Some (CHR ''&'', 4)
      else if prefix ''lt;'' s then Some (CHR ''<'', 3)
      else if prefix ''gt;'' s then Some (CHR ''>'', 3)
      else if prefix ''quot;'' s then Some (CHR 0x22, 5)
      else if prefix ''apos;'' s then Some (CHR 0x27, 5)
      else
        (case s of
           c1 # c2 # h1 # h2 # c3 # r \<Rightarrow>
             if c1 = CHR ''#'' \<and> c2 = CHR ''x'' \<and> c3 = CHR '';'' then
               (case (map_of hex_table h1, map_of hex_table h2) of
                  (Some a, Some b) \<Rightarrow> Some (char_of (16 * a + b), 5)
                | _ \<Rightarrow> None)
             else None
         | _ \<Rightarrow> None))"

text \<open>Modelled from the spec: unescaping, the inverse of text escaping.\<close>

function xml_unescape :: "string \<Rightarrow> string" where
  "xml_unescape [] = []"
| "xml_unescape (c # s) =
     (if c = CHR ''&'' then
        (case decode_entity s of
           Some (ch, k) \<Rightarrow> ch # xml_unescape (drop k s)
         | None \<Rightarrow> c # xml_unescape s)
      else c # xml_unescape s)"
  by pat_completeness auto
termination
  by (relation "measure length") auto

















section \<open>The serializers on values of any shape\<close>

text \<open>
  Nothing in \<^verbatim>\<open>src/index.js\<close> says that the argument of a serializer is a tree: the
  language has no types, and a serializer throws a \<^verbatim>\<open>TypeError\<close> where it reads a
  property of \<^verbatim>\<open>undefined\<close>, loops over a value that cannot be iterated, calls
  \<^verbatim>\<open>forEach\<close> on a value that has none, or gives \<^verbatim>\<open>path.join\<close> something that is not a
  string. Here both serializers are written once more over the values themselves, with
  every such throw as a result \<open>Inl\<close>. The values are \<^verbatim>\<open>undefined\<close>, strings, arrays, and
  objects with their own properties in the order they were written (the first entry of a
  name counts); numbers, booleans, \<^verbatim>\<open>null\<close> and functions are left out, no tree holds them.
\<close>

datatype jsval = Undefined | Str string | Arr "jsval list" | Obj "(string \<times> jsval) list"

datatype error = TypeError

text \<open>
  The objects that \<open>walkDir\<close> pushes,
  \<^verbatim>\<open>{ type: 'directory', name: file, path: relPath, children: walkDir(...) }\<close> and
  \<^verbatim>\<open>{ type: 'file', name: file, path: relPath, content }\<close>.
\<close>

fun js_node :: "node \<Rightarrow> jsval" where
  "js_node (Directory nm p ch) =
     Obj [(''type'', Str ''directory''), (''name'', Str nm), (''path'', Str p),
          (''children'', Arr (map js_node ch))]"
| "js_node (File nm p c) =
     Obj [(''type'', Str ''file''), (''name'', Str nm), (''path'', Str p), (''content'', Str c)]"

text \<open>
  \<^verbatim>\<open>v.k\<close> for the names that the serializers read: \<^verbatim>\<open>type\<close>, \<^verbatim>\<open>name\<close>, \<^verbatim>\<open>path\<close>,
  \<^verbatim>\<open>children\<close> and \<^verbatim>\<open>content\<close>. Strings, arrays and \<^verbatim>\<open>Object.prototype\<close> have no property
  of these names, so only an object's own property gives a value.
\<close>

fun property :: "jsval \<Rightarrow> string \<Rightarrow> error + jsval" where
  "property Undefined k = Inl TypeError"
| "property (Str s) k = Inr Undefined"
| "property (Arr xs) k = Inr Undefined"
| "property (Obj kvs) k = Inr (case map_of kvs k of None \<Rightarrow> Undefined | Some v \<Rightarrow> v)"

text \<open>
  The values of \<^verbatim>\<open>for (const node of files)\<close>: the elements of an array, the characters
  of a string; nothing else here can be iterated.
\<close>

fun iterate :: "jsval \<Rightarrow> error + jsval list" where
  "iterate Undefined = Inl TypeError"
| "iterate (Str s) = Inr (map (\<lambda>c. Str [c]) s)"
| "iterate (Arr xs) = Inr xs"
| "iterate (Obj kvs) = Inl TypeError"

text \<open>The elements that \<^verbatim>\<open>files.forEach(...)\<close> visits: only an array has the method.\<close>

fun forEach :: "jsval \<Rightarrow> error + jsval list" where
  "forEach (Arr xs) = Inr xs"
| "forEach Undefined = Inl TypeError"
| "forEach (Str s) = Inl TypeError"
| "forEach (Obj kvs) = Inl TypeError"

text \<open>\<^verbatim>\<open>path.join\<close> takes strings only.\<close>

fun validateString :: "jsval \<Rightarrow> error + string" where
  "validateString (Str s) = Inr s"
| "validateString Undefined = Inl TypeError"
| "validateString (Arr xs) = Inl TypeError"
| "validateString (Obj kvs) = Inl TypeError"

text \<open>
  The string of a value in \<^verbatim>\<open>node.content + '\n'\<close>: an array is its elements joined by
  commas, with nothing for \<^verbatim>\<open>undefined\<close>.
\<close>

fun join_comma :: "string list \<Rightarrow> string" where
  "join_comma [] = []"
| "join_comma [s] = s"
| "join_comma (s # t # rest) = s @ CHR '','' # join_comma (t # rest)"

fun to_string :: "jsval \<Rightarrow> string" where
  "to_string Undefined = ''undefined''"
| "to_string (Str s) = s"
| "to_string (Arr xs) = join_comma (map (\<lambda>x. if x = Undefined then [] else to_string x) xs)"
| "to_string (Obj kvs) = ''[object Object]''"

text \<open>
  \<open>weight\<close> counts the arrays and the objects of a value; it is the measure of the
  recursions below.
\<close>

fun weight :: "jsval \<Rightarrow> nat" where
  "weight Undefined = 0"
| "weight (Str s) = 0"
| "weight (Arr xs) = Suc (sum_list (map weight xs))"
| "weight (Obj kvs) = Suc (sum_list (map (\<lambda>kv. weight (snd kv)) kvs))"

text \<open>
  \<^verbatim>\<open>buildTxtOutput(files, output, parentPath)\<close> on values. \<open>buildTxtOutput_dyn_push\<close> is the
  array when the loop of a call is over, \<open>buildTxtOutput_dyn_loop\<close> the loop over the
  values still to come. The arguments of the nested call are evaluated from left to
  right (\<^verbatim>\<open>node.children\<close>, then \<^verbatim>\<open>path.join(parentPath, node.name)\<close>) before the call
  iterates the children. \<open>buildTxtOutput_dyn\<close> returns \<^verbatim>\<open>output.join('')\<close>.
\<close>

function buildTxtOutput_dyn_push :: "jsval \<Rightarrow> string list \<Rightarrow> string \<Rightarrow> error + string list"
  and buildTxtOutput_dyn_loop :: "jsval list \<Rightarrow> string list \<Rightarrow> string \<Rightarrow> error + string list"
where
  "buildTxtOutput_dyn_push files output parentPath =
     (case iterate files of
        Inl e \<Rightarrow> Inl e
      | Inr nodes \<Rightarrow> buildTxtOutput_dyn_loop nodes output parentPath)"
| "buildTxtOutput_dyn_loop [] output parentPath = Inr output"
| "buildTxtOutput_dyn_loop (node # rest) output parentPath =
     (case property node ''type'' of
        Inl e \<Rightarrow> Inl e
      | Inr t \<Rightarrow>
          if t = Str ''directory'' then
            (case property node ''children'' of
               Inl e \<Rightarrow> Inl e
             | Inr ch \<Rightarrow>
            (case property node ''name'' of
               Inl e \<Rightarrow> Inl e
             | Inr nm \<Rightarrow>
            (case validateString nm of
               Inl e \<Rightarrow> Inl e
             | Inr s \<Rightarrow>
            (case buildTxtOutput_dyn_push ch output (path_join parentPath s) of
               Inl e \<Rightarrow> Inl e
             | Inr output' \<Rightarrow> buildTxtOutput_dyn_loop rest output' parentPath))))
          else
            (case property node ''name'' of
               Inl e \<Rightarrow> Inl e
             | Inr nm \<Rightarrow>
            (case validateString nm of
               Inl e \<Rightarrow> Inl e
             | Inr s \<Rightarrow>
            (case property node ''content'' of
               Inl e \<Rightarrow> Inl e
             | Inr c \<Rightarrow>
                 buildTxtOutput_dyn_loop rest
                   (output @ [''--- FILE: '' @ path_join parentPath s @ '' ---\<newline>'',
                              to_string c @ ''\<newline>''])
                   parentPath))))"
  by pat_completeness auto
termination
proof (relation "measures
    [\<lambda>x. case x of Inl (files, out, pp) \<Rightarrow> 2 * weight files + 2
               | Inr (nodes, out, pp) \<Rightarrow> 2 * sum_list (map weight nodes) + 1,
     \<lambda>x. case x of Inl (files, out, pp) \<Rightarrow> 0 | Inr (nodes, out, pp) \<Rightarrow> length nodes]")
  fix files :: jsval and out :: "string list" and pp :: string and nodes
  assume "iterate files = Inr nodes"
  then have "sum_list (map weight nodes) \<le> weight files"
    by (cases files) auto
  then show "(Inr (nodes, out, pp), Inl (files, out, pp)) \<in> measures
    [\<lambda>x. case x of Inl (files, out, pp) \<Rightarrow> 2 * weight files + 2
               | Inr (nodes, out, pp) \<Rightarrow> 2 * sum_list (map weight nodes) + 1,
     \<lambda>x. case x of Inl (files, out, pp) \<Rightarrow> 0 | Inr (nodes, out, pp) \<Rightarrow> length nodes]"
    by simp
next
  fix node :: jsval and rest and out :: "string list" and pp :: string and t ch nm s
  assume t: "property node ''type'' = Inr t" "t = Str ''directory''"
    and ch: "property node ''children'' = Inr ch"
  have look: "weight v \<le> sum_list (map (\<lambda>kv. weight (snd kv)) kvs)" if "map_of kvs k = Some v"
    for kvs :: "(string \<times> jsval) list" and k v
    using that by (induction kvs) (auto split: if_splits)
  have "weight ch < weight node"
    using t ch look by (cases node) (auto split: option.splits simp add: le_imp_less_Suc)
  then show "(Inl (ch, out, path_join pp s), Inr (node # rest, out, pp)) \<in> measures
    [\<lambda>x. case x of Inl (files, out, pp) \<Rightarrow> 2 * weight files + 2
               | Inr (nodes, out, pp) \<Rightarrow> 2 * sum_list (map weight nodes) + 1,
     \<lambda>x. case x of Inl (files, out, pp) \<Rightarrow> 0 | Inr (nodes, out, pp) \<Rightarrow> length nodes]"
    by simp
qed auto

definition buildTxtOutput_dyn :: "jsval \<Rightarrow> string list \<Rightarrow> string \<Rightarrow> error + string" where
  "buildTxtOutput_dyn files output parentPath =
     (case buildTxtOutput_dyn_push files output parentPath of
        Inl e \<Rightarrow> Inl e
      | Inr output' \<Rightarrow> Inr (concat output'))"

text \<open>
  Modelled from the spec: a value that the markup library is given as an attribute or as
  text. The library is not in the sources; the specification calls the serializer total,
  so a string is taken as it is. What the library makes of another value is left open:
  \<open>other\<close> may turn it into a string, leave the attribute or the text out (\<open>None\<close>), or
  throw.
\<close>

fun library_value :: "(jsval \<Rightarrow> error + string option) \<Rightarrow> jsval \<Rightarrow> error + string option" where
  "library_value other (Str s) = Inr (Some s)"
| "library_value other Undefined = other Undefined"
| "library_value other (Arr xs) = other (Arr xs)"
| "library_value other (Obj kvs) = other (Obj kvs)"

text \<open>Modelled from the spec: the attributes of \<^verbatim>\<open>ele(name, attributes)\<close>, in their order.\<close>

fun attributes ::
  "(jsval \<Rightarrow> error + string option) \<Rightarrow> (string \<times> jsval) list \<Rightarrow> error + (string \<times> string) list" where
  "attributes other [] = Inr []"
| "attributes other ((k, v) # rest) =
     (case library_value other v of
        Inl e \<Rightarrow> Inl e
      | Inr a \<Rightarrow>
     (case attributes other rest of
        Inl e \<Rightarrow> Inl e
      | Inr as \<Rightarrow> Inr ((case a of None \<Rightarrow> [] | Some s \<Rightarrow> [(k, s)]) @ as)))"

text \<open>Modelled from the spec: \<^verbatim>\<open>ele(name, attributes)\<close> on values.\<close>

definition ele_dyn ::
  "(jsval \<Rightarrow> error + string option) \<Rightarrow> string \<Rightarrow> (string \<times> jsval) list \<Rightarrow> error + xml" where
  "ele_dyn other t kvs =
     (case attributes other kvs of Inl e \<Rightarrow> Inl e | Inr as \<Rightarrow> Inr (ele t as))"

text \<open>Modelled from the spec: \<^verbatim>\<open>element.txt(content)\<close> on a value.\<close>

definition txt_dyn :: "(jsval \<Rightarrow> error + string option) \<Rightarrow> xml \<Rightarrow> jsval \<Rightarrow> error + xml" where
  "txt_dyn other e v =
     (case library_value other v of
        Inl err \<Rightarrow> Inl err
      | Inr None \<Rightarrow> Inr e
      | Inr (Some s) \<Rightarrow> Inr (txt' e s))"

text \<open>
  \<^verbatim>\<open>buildNode(node, xmlParent)\<close> on a value, and
  \<^verbatim>\<open>nodes.forEach(child => buildNode(child, xmlParent))\<close>: \<open>buildNode_dyn\<close> for each element
  in turn, on the parent as the elements before it have left it.
\<close>

function buildNode_dyn ::
    "(jsval \<Rightarrow> error + string option) \<Rightarrow> jsval \<Rightarrow> xml \<Rightarrow> error + xml"
  and buildNode_each ::
    "(jsval \<Rightarrow> error + string option) \<Rightarrow> jsval list \<Rightarrow> xml \<Rightarrow> error + xml"
where
  "buildNode_dyn other node xmlParent =
     (case property node ''type'' of
        Inl e \<Rightarrow> Inl e
      | Inr t \<Rightarrow>
          if t = Str ''directory'' then
            (case property node ''name'' of
               Inl e \<Rightarrow> Inl e
             | Inr nm \<Rightarrow>
            (case property node ''path'' of
               Inl e \<Rightarrow> Inl e
             | Inr p \<Rightarrow>
            (case ele_dyn other ''directory'' [(''name'', nm), (''path'', p)] of
               Inl e \<Rightarrow> Inl e
             | Inr dirElem \<Rightarrow>
            (case property node ''children'' of
               Inl e \<Rightarrow> Inl e
             | Inr ch \<Rightarrow>
            (case forEach ch of
               Inl e \<Rightarrow> Inl e
             | Inr nodes \<Rightarrow>
            (case buildNode_each other nodes dirElem of
               Inl e \<Rightarrow> Inl e
             | Inr dirElem' \<Rightarrow> Inr (appendChild xmlParent dirElem')))))))
          else
            (case property node ''name'' of
               Inl e \<Rightarrow> Inl e
             | Inr nm \<Rightarrow>
            (case property node ''path'' of
               Inl e \<Rightarrow> Inl e
             | Inr p \<Rightarrow>
            (case ele_dyn other ''file'' [(''name'', nm), (''path'', p)] of
               Inl e \<Rightarrow> Inl e
             | Inr fileElem \<Rightarrow>
            (case property node ''content'' of
               Inl e \<Rightarrow> Inl e
             | Inr c \<Rightarrow>
            (case txt_dyn other fileElem c of
               Inl e \<Rightarrow> Inl e
             | Inr fileElem' \<Rightarrow> Inr (appendChild xmlParent fileElem')))))))"
| "buildNode_each other [] xmlParent = Inr xmlParent"
| "buildNode_each other (node # rest) xmlParent =
     (case buildNode_dyn other node xmlParent of
        Inl e \<Rightarrow> Inl e
      | Inr xmlParent' \<Rightarrow> buildNode_each other rest xmlParent')"
  by pat_completeness auto
termination
proof (relation "measures
    [\<lambda>x. case x of Inl (other, node, parent) \<Rightarrow> 2 * weight node
               | Inr (other, nodes, parent) \<Rightarrow> 2 * sum_list (map weight nodes) + 1,
     \<lambda>x. case x of Inl (other, node, parent) \<Rightarrow> 0 | Inr (other, nodes, parent) \<Rightarrow> length nodes]")
  fix other :: "jsval \<Rightarrow> error + string option" and node :: jsval and xmlParent dirElem :: xml
    and t ch nodes
  assume t: "property node ''type'' = Inr t" "t = Str ''directory''"
    and ch: "property node ''children'' = Inr ch" and ns: "forEach ch = Inr nodes"
  have look: "weight v \<le> sum_list (map (\<lambda>kv. weight (snd kv)) kvs)" if "map_of kvs k = Some v"
    for kvs :: "(string \<times> jsval) list" and k v
    using that by (induction kvs) (auto split: if_splits)
  have "Suc (sum_list (map weight nodes)) = weight ch"
    using ns by (cases ch) auto
  moreover have "weight ch < weight node"
    using t ch look by (cases node) (auto split: option.splits simp add: le_imp_less_Suc)
  ultimately show "(Inr (other, nodes, dirElem), Inl (other, node, xmlParent)) \<in> measures
    [\<lambda>x. case x of Inl (other, node, parent) \<Rightarrow> 2 * weight node
               | Inr (other, nodes, parent) \<Rightarrow> 2 * sum_list (map weight nodes) + 1,
     \<lambda>x. case x of Inl (other, node, parent) \<Rightarrow> 0 | Inr (other, nodes, parent) \<Rightarrow> length nodes]"
    by simp
qed auto

text \<open>\<^verbatim>\<open>buildXmlTree(files)\<close> on a value.\<close>

definition buildXmlTree_dyn :: "(jsval \<Rightarrow> error + string option) \<Rightarrow> jsval \<Rightarrow> error + string" where
  "buildXmlTree_dyn other files =
     (case forEach files of
        Inl e \<Rightarrow> Inl e
      | Inr nodes \<Rightarrow>
     (case buildNode_each other nodes (ele ''repository'' []) of
        Inl e \<Rightarrow> Inl e
      | Inr root \<Rightarrow> Inr (xml_end root)))"

section \<open>Notions used to state the properties\<close>

text \<open>The \<open>File\<close> nodes of a tree, and the stored paths of all its nodes, in pre-order.\<close>

fun files_of :: "node list \<Rightarrow> node list" where
  "files_of [] = []"
| "files_of (Directory nm p ch # rest) = files_of ch @ files_of rest"
| "files_of (File nm p c # rest) = File nm p c # files_of rest"

fun all_paths :: "node list \<Rightarrow> string list" where
  "all_paths [] = []"
| "all_paths (Directory nm p ch # rest) = p # all_paths ch @ all_paths rest"
| "all_paths (File nm p c # rest) = p # all_paths rest"

text \<open>
  The blocks of the delimited-text output: for each \<open>File\<close> node, in pre-order, the path
  of its header (the names of its ancestors and its own, joined) and its content.
\<close>

fun txt_entries :: "string \<Rightarrow> node list \<Rightarrow> (string \<times> string) list" where
  "txt_entries parentPath [] = []"
| "txt_entries parentPath (Directory nm p ch # rest) =
     txt_entries (path_join parentPath nm) ch @ txt_entries parentPath rest"
| "txt_entries parentPath (File nm p c # rest) =
     (path_join parentPath nm, c) # txt_entries parentPath rest"

definition txt_block :: "string \<times> string \<Rightarrow> string" where
  "txt_block e = ''--- FILE: '' @ fst e @ '' ---\<newline>'' @ snd e @ ''\<newline>''"

text \<open>
  The header line of the path \<open>p\<close>, and the header lines in the array that
  \<open>buildTxtOutput\<close> fills: it pushes a header, then a content, in turns.
\<close>

definition txt_header :: "string \<Rightarrow> string" where
  "txt_header p = ''--- FILE: '' @ p @ '' ---\<newline>''"

fun txt_headers :: "string list \<Rightarrow> string list" where
  "txt_headers (h # c # rest) = h # txt_headers rest"
| "txt_headers [h] = []"
| "txt_headers [] = []"

text \<open>
  The path that the walker passed to \<^verbatim>\<open>fs\<close> for each \<open>File\<close> node of a tree walked from
  \<open>dir\<close>: the names on the way down, joined to \<open>dir\<close> one by one.
\<close>

fun located :: "string \<Rightarrow> node list \<Rightarrow> (string \<times> node) list" where
  "located dir [] = []"
| "located dir (Directory nm p ch # rest) = located (path_join dir nm) ch @ located dir rest"
| "located dir (File nm p c # rest) = (path_join dir nm, File nm p c) # located dir rest"

text \<open>
  What the walker has checked for a node that it pushed while listing \<open>dir\<close>.
\<close>

fun produced :: "platform \<Rightarrow> string list \<Rightarrow> nat \<Rightarrow> string \<Rightarrow> node \<Rightarrow> bool" where
  "produced pf excludes fileSizeLimit dir (File nm p c) =
     (p = path_relative (cwd pf) (cwd pf) (path_join dir nm) \<and>
      \<not> excluded excludes p \<and>
      (case statSync pf (path_join dir nm) of
         Inl err \<Rightarrow> False
       | Inr st \<Rightarrow> \<not> isDirectory st \<and> size_bytes st \<le> fileSizeLimit) \<and>
      isBinaryFileSync pf (path_join dir nm) = Inr False \<and>
      readFileSync pf (path_join dir nm) = Inr c)"
| "produced pf excludes fileSizeLimit dir (Directory nm p ch) =
     (p = path_relative (cwd pf) (cwd pf) (path_join dir nm) \<and>
      \<not> excluded excludes p \<and>
      (case statSync pf (path_join dir nm) of
         Inl err \<Rightarrow> False
       | Inr st \<Rightarrow> isDirectory st) \<and>
      list_all (produced pf excludes fileSizeLimit (path_join dir nm)) ch)"

text \<open>
  What one iteration of the loop pushes for the entry \<open>file\<close>: nothing, or one node.
\<close>

definition visit ::
  "(string \<Rightarrow> node list option) \<Rightarrow> platform \<Rightarrow> string \<Rightarrow> string list \<Rightarrow> nat \<Rightarrow>
     string \<Rightarrow> node list option" where
  "visit rec pf dir excludes fileSizeLimit file =
     walkLoop rec pf dir excludes fileSizeLimit [file] []"

text \<open>
  The directories into which the walker descends: \<open>(d', d)\<close> when \<open>d'\<close> is an entry of
  \<open>d\<close> that is not excluded and whose \<^verbatim>\<open>statSync\<close> (which follows symbolic links) reports
  a directory.
\<close>

definition descends :: "platform \<Rightarrow> string list \<Rightarrow> (string \<times> string) set" where
  "descends pf excludes =
     {(d', d). \<exists>entries file st.
        readdirSync pf d = Inr entries \<and> file \<in> set entries \<and> d' = path_join d file \<and>
        \<not> excluded excludes (path_relative (cwd pf) (cwd pf) d') \<and>
        statSync pf d' = Inr st \<and> isDirectory st}"

text \<open>The element that stands for a node, and the \<^verbatim>\<open>path\<close> attributes of the
  \<^verbatim>\<open>file\<close> elements of a document, in document order.\<close>

fun node_xml :: "node \<Rightarrow> xml" where
  "node_xml (Directory nm p ch) =
     Element ''directory'' [(''name'', nm), (''path'', p)] (map node_xml ch)"
| "node_xml (File nm p c) = Element ''file'' [(''name'', nm), (''path'', p)] [Text c]"

fun xml_file_paths :: "xml \<Rightarrow> string list" where
  "xml_file_paths (Element t a cs) =
     (if t = ''file'' then (case map_of a ''path'' of Some p \<Rightarrow> [p] | None \<Rightarrow> []) else []) @
     concat (map xml_file_paths cs)"
| "xml_file_paths (Text s) = []"

text \<open>
  A name as a directory listing gives it: not empty, without \<^verbatim>\<open>/\<close>, and neither \<^verbatim>\<open>.\<close>
  nor \<^verbatim>\<open>..\<close>. \<open>name_chains\<close> gives, for each \<open>File\<close> node in pre-order, the names
  from the top of the tree down to the file.
\<close>

definition valid_name :: "string \<Rightarrow> bool" where
  "valid_name nm = (nm \<noteq> [] \<and> CHR ''/'' \<notin> set nm \<and> nm \<noteq> ''.'' \<and> nm \<noteq> ''..'')"

fun valid_names :: "node list \<Rightarrow> bool" where
  "valid_names [] = True"
| "valid_names (Directory nm p ch # rest) = (valid_name nm \<and> valid_names ch \<and> valid_names rest)"
| "valid_names (File nm p c # rest) = (valid_name nm \<and> valid_names rest)"

fun name_chains :: "node list \<Rightarrow> string list list" where
  "name_chains [] = []"
| "name_chains (Directory nm p ch # rest) = map ((#) nm) (name_chains ch) @ name_chains rest"
| "name_chains (File nm p c # rest) = [nm] # name_chains rest"

text \<open>A segment as \<open>normalizeStep\<close> keeps it: not empty, no separator, not \<^verbatim>\<open>.\<close>.\<close>

definition seg_ok :: "string \<Rightarrow> bool" where
  "seg_ok s = (s \<noteq> [] \<and> CHR ''/'' \<notin> set s \<and> s \<noteq> ''.'')"






section \<open>A small file system\<close>

text \<open>
  The tree \<^verbatim>\<open>/work/repo\<close> of the examples: \<^verbatim>\<open>src/a.txt\<close> (``hello''), \<^verbatim>\<open>src/big.bin\<close>
  (2 MB, binary), \<^verbatim>\<open>.git/config\<close>, and entries on which one call fails. The listings are
  not in alphabetical order.
\<close>

definition demo_readdir :: "string \<Rightarrow> string + string list" where
  "demo_readdir d =
     (if d = ''/work/repo'' then Inr [''src'', ''.git'', ''locked'', ''ghost'', ''README.md'']
      else if d = ''/work/repo/src''
        then Inr [''big.bin'', ''a.txt'', ''logo.png'', ''secret.txt'', ''odd.dat'']
      else if d = ''/work/repo/.git'' then Inr [''config'']
      else if d = ''/work/repo/locked'' then Inl ''EACCES: permission denied, scandir''
      else Inl ''ENOENT: no such file or directory, scandir'')"

definition demo_stat :: "string \<Rightarrow> string + stats" where
  "demo_stat f =
     (if f \<in> {''/work/repo'', ''/work/repo/src'', ''/work/repo/.git'', ''/work/repo/locked''}
        then Inr \<lparr>isDirectory = True, size_bytes = 4096\<rparr>
      else if f = ''/work/repo/README.md'' then Inr \<lparr>isDirectory = False, size_bytes = 5\<rparr>
      else if f = ''/work/repo/src/big.bin''
        then Inr \<lparr>isDirectory = False, size_bytes = 2097152\<rparr>
      else if f = ''/work/repo/src/a.txt'' then Inr \<lparr>isDirectory = False, size_bytes = 5\<rparr>
      else if f = ''/work/repo/src/logo.png'' then Inr \<lparr>isDirectory = False, size_bytes = 100\<rparr>
      else if f = ''/work/repo/src/secret.txt'' then Inr \<lparr>isDirectory = False, size_bytes = 10\<rparr>
      else if f = ''/work/repo/src/odd.dat'' then Inr \<lparr>isDirectory = False, size_bytes = 7\<rparr>
      else if f = ''/work/repo/.git/config'' then Inr \<lparr>isDirectory = False, size_bytes = 20\<rparr>
      else Inl ''ENOENT: no such file or directory, stat'')"

definition demo_isBinary :: "string \<Rightarrow> string + bool" where
  "demo_isBinary f =
     (if f \<in> {''/work/repo/src/big.bin'', ''/work/repo/src/logo.png''} then Inr True
      else if f = ''/work/repo/src/odd.dat'' then Inl ''EIO: i/o error, read''
      else Inr False)"

definition demo_readFile :: "string \<Rightarrow> string + string" where
  "demo_readFile f =
     (if f = ''/work/repo/README.md'' then Inr ''# hi\<newline>''
      else if f = ''/work/repo/src/a.txt'' then Inr ''hello''
      else if f = ''/work/repo/.git/config'' then Inr ''[core]''
      else Inl ''EACCES: permission denied, open'')"

definition demo :: "string \<Rightarrow> platform" where
  "demo wd = \<lparr>cwd = wd, readdirSync = demo_readdir, statSync = demo_stat,
               isBinaryFileSync = demo_isBinary, readFileSync = demo_readFile\<rparr>"

definition demo_tree :: "node list" where
  "demo_tree =
     [Directory ''src'' ''src'' [File ''a.txt'' ''src/a.txt'' ''hello''],
      Directory ''locked'' ''locked'' [],
      File ''README.md'' ''README.md'' ''# hi\<newline>'']"

section \<open>Evaluation rules\<close>

lemmas path_defs = path_join_def path_relative_def path_normalize_def normalizeString_def
  normalizeSegs_def normalizeStep_def resolveSegs_def isAbsolute_def

lemmas demo_defs = demo_def demo_readdir_def demo_stat_def demo_isBinary_def demo_readFile_def
  demo_tree_def

lemmas walk_eval = walkLoop.simps(2) numeral_3_eq_3 excluded_def Let_def

section \<open>The delimited-text output\<close>

lemma concat_buildTxtOutput_push:
  "concat (buildTxtOutput_push files out parentPath) =
     concat out @ concat (map txt_block (txt_entries parentPath files))"
  by (induction files out parentPath rule: buildTxtOutput_push.induct)
     (simp_all add: txt_block_def)

lemma txt_entries_contents:
  "map snd (txt_entries parentPath files) = map content (files_of files)"
  by (induction parentPath files rule: txt_entries.induct) simp_all

text \<open>
  C3, as the code has it. The output is the concatenation, in pre-order, of one block per
  \<open>File\<close> node: the header line \<^verbatim>\<open>--- FILE: <path> ---\<close>, then the raw content and one
  newline. For the tree whose only file is \<^verbatim>\<open>src/a.txt\<close> with content \<^verbatim>\<open>hello\<close> the
  output is the header line followed by \<^verbatim>\<open>hello\<close> and a single newline.
\<close>

theorem buildTxtOutput_blocks:
  "buildTxtOutput files [] parentPath = concat (map txt_block (txt_entries parentPath files)) \<and>
   map snd (txt_entries parentPath files) = map content (files_of files) \<and>
   buildTxtOutput [Directory ''src'' ''src'' [File ''a.txt'' ''src/a.txt'' ''hello'']] [] [] =
     ''--- FILE: src/a.txt ---\<newline>hello\<newline>''"
proof (intro conjI)
  show "buildTxtOutput files [] parentPath = concat (map txt_block (txt_entries parentPath files))"
    by (simp add: buildTxtOutput_def concat_buildTxtOutput_push)
  show "map snd (txt_entries parentPath files) = map content (files_of files)"
    by (rule txt_entries_contents)
  show "buildTxtOutput [Directory ''src'' ''src'' [File ''a.txt'' ''src/a.txt'' ''hello'']] [] [] =
     ''--- FILE: src/a.txt ---\<newline>hello\<newline>''"
    by code_simp
qed

text \<open>
  C3 as stated gives the output of that tree with two newlines after \<^verbatim>\<open>hello\<close>; the code
  writes one.
\<close>

theorem buildTxtOutput_scenario_counterexample:
  "buildTxtOutput [Directory ''src'' ''src'' [File ''a.txt'' ''src/a.txt'' ''hello'']] [] [] \<noteq>
     ''--- FILE: src/a.txt ---\<newline>hello\<newline>\<newline>''"
  by code_simp

section \<open>The walker\<close>

lemma walkLoop_Cons:
  "walkLoop rec pf dir ex lim (f # rest) files =
     (case visit rec pf dir ex lim f of
        None \<Rightarrow> None
      | Some ns \<Rightarrow> walkLoop rec pf dir ex lim rest (files @ ns))"
  by (simp add: visit_def walkLoop.simps(2) Let_def split: sum.split option.split)

lemma visit_Some:
  assumes "visit rec pf dir ex lim f = Some ns"
  shows "ns = [] \<or>
         (\<exists>c. ns = [File f (path_relative (cwd pf) (cwd pf) (path_join dir f)) c] \<and>
              produced pf ex lim dir (File f (path_relative (cwd pf) (cwd pf) (path_join dir f)) c)) \<or>
         (\<exists>sub st. ns = [Directory f (path_relative (cwd pf) (cwd pf) (path_join dir f)) sub] \<and>
              rec (path_join dir f) = Some sub \<and>
              \<not> excluded ex (path_relative (cwd pf) (cwd pf) (path_join dir f)) \<and>
              statSync pf (path_join dir f) = Inr st \<and> isDirectory st)"
  using assms
  by (auto simp add: visit_def walkLoop.simps(2) Let_def split: sum.splits option.splits if_splits)

declare walkLoop.simps(2) [simp del]

lemma walkLoop_those:
  "walkLoop rec pf dir ex lim es files =
     map_option (\<lambda>nss. files @ concat nss) (those (map (visit rec pf dir ex lim) es))"
proof (induction es arbitrary: files)
  case Nil
  show ?case by simp
next
  case (Cons e es)
  show ?case
    by (simp add: walkLoop_Cons [of _ _ _ _ _ e es] Cons.IH option.map_comp comp_def
          split: option.split)
qed

lemma walkLoop_append:
  "walkLoop rec pf dir ex lim (es1 @ es2) files =
     (case walkLoop rec pf dir ex lim es1 files of
        None \<Rightarrow> None
      | Some fs \<Rightarrow> walkLoop rec pf dir ex lim es2 fs)"
  by (induction es1 arbitrary: files) (simp_all add: walkLoop_Cons split: option.split)


text \<open>
  When no entry of the listing is excluded, every entry can be examined, and every file
  is within the limit, not binary and readable, each entry has its node: nothing of the
  directory is left out.
\<close>

lemma walkLoop_keeps_all:
  assumes "\<And>e. e \<in> set es \<Longrightarrow>
      \<not> excluded ex (path_relative (cwd pf) (cwd pf) (path_join dir e)) \<and>
      (case statSync pf (path_join dir e) of
         Inl err \<Rightarrow> False
       | Inr st \<Rightarrow>
           if isDirectory st then rec (path_join dir e) \<noteq> None
           else size_bytes st \<le> lim \<and> isBinaryFileSync pf (path_join dir e) = Inr False \<and>
                (\<exists>c. readFileSync pf (path_join dir e) = Inr c))"
  shows "\<exists>new. walkLoop rec pf dir ex lim es files = Some (files @ new) \<and> map name new = es"
  using assms
proof (induction es arbitrary: files)
  case Nil
  show ?case by simp
next
  case (Cons e es)
  have "\<exists>nd. visit rec pf dir ex lim e = Some [nd] \<and> name nd = e"
    using Cons.prems [of e]
    by (auto simp add: visit_def walkLoop.simps(2) Let_def split: sum.splits)
  then obtain nd where v: "visit rec pf dir ex lim e = Some [nd]" and n: "name nd = e"
    by blast
  obtain new where "walkLoop rec pf dir ex lim es (files @ [nd]) = Some ((files @ [nd]) @ new)"
    and "map name new = es"
    using Cons.IH [of "files @ [nd]"] Cons.prems by auto
  with v n show ?case by (simp add: walkLoop_Cons)
qed

lemma walkLoop_list_all:
  assumes "walkLoop rec pf dir ex lim es files = Some out"
    and "\<And>e ns. e \<in> set es \<Longrightarrow> visit rec pf dir ex lim e = Some ns \<Longrightarrow> list_all P ns"
    and "list_all P files"
  shows "list_all P out"
  using assms
proof (induction es arbitrary: files)
  case Nil
  then show ?case by simp
next
  case (Cons e es)
  from Cons.prems(1) obtain ns where v: "visit rec pf dir ex lim e = Some ns"
    and r: "walkLoop rec pf dir ex lim es (files @ ns) = Some out"
    by (auto simp add: walkLoop_Cons split: option.splits)
  have "list_all P ns" using Cons.prems(2) [of e ns] v by simp
  with Cons.prems(3) have "list_all P (files @ ns)" by simp
  show ?case
  proof (rule Cons.IH [OF r])
    show "list_all P ns'" if "e' \<in> set es" "visit rec pf dir ex lim e' = Some ns'" for e' ns'
      using Cons.prems(2) [of e' ns'] that by simp
    show "list_all P (files @ ns)" by fact
  qed
qed

lemma walkDir_produced:
  "walkDir n pf dir ex lim files = Some out \<Longrightarrow> list_all (produced pf ex lim dir) files \<Longrightarrow>
     list_all (produced pf ex lim dir) out"
proof (induction n arbitrary: dir files out)
  case 0
  then show ?case by simp
next
  case (Suc n)
  show ?case
  proof (cases "readdirSync pf dir")
    case (Inl err)
    with Suc.prems show ?thesis by simp
  next
    case (Inr entries)
    let ?rec = "\<lambda>d. walkDir n pf d ex lim []"
    from Suc.prems(1) Inr have w: "walkLoop ?rec pf dir ex lim entries files = Some out"
      by simp
    have "list_all (produced pf ex lim dir) ns"
      if "visit ?rec pf dir ex lim e = Some ns" for e ns
      using visit_Some [OF that] Suc.IH [of "path_join dir e" "[]"]
      by auto
    then show ?thesis
      using walkLoop_list_all [OF w _ Suc.prems(2)] by blast
  qed
qed

lemma str_includes_sublist: "str_includes s ex \<longleftrightarrow> sublist ex s"
  by (induction s) (auto simp add: sublist_Cons_right)

lemma excluded_iff:
  "excluded excludes p \<longleftrightarrow> (\<exists>ex \<in> set excludes. \<exists>ps ss. p = ps @ ex @ ss)"
  by (simp add: excluded_def list_ex_iff str_includes_sublist sublist_def)

lemma produced_all_paths:
  "list_all (produced pf ex lim dir) nodes \<Longrightarrow> p \<in> set (all_paths nodes) \<Longrightarrow> \<not> excluded ex p"
  by (induction nodes arbitrary: dir rule: all_paths.induct) auto

text \<open>
  C4. No node of the tree that the walker returns has a stored path that contains an
  exclusion token: the path is not of the form \<open>ps @ ex @ ss\<close> for any token \<open>ex\<close>. The
  test that the walker applies is exactly this containment: any position, characters
  compared as they are, no regard to \<^verbatim>\<open>/\<close>.
\<close>

theorem walkDir_no_excluded_path:
  assumes "walkDir n pf dir excludes fileSizeLimit [] = Some nodes"
  shows "(\<forall>p \<in> set (all_paths nodes). \<forall>ex \<in> set excludes. \<not> (\<exists>ps ss. p = ps @ ex @ ss)) \<and>
         (\<forall>p. excluded excludes p \<longleftrightarrow> (\<exists>ex \<in> set excludes. \<exists>ps ss. p = ps @ ex @ ss))"
proof -
  have "list_all (produced pf excludes fileSizeLimit dir) nodes"
    using walkDir_produced [OF assms] by simp
  then have "\<not> excluded excludes p" if "p \<in> set (all_paths nodes)" for p
    using produced_all_paths that by blast
  then show ?thesis
    by (auto simp add: excluded_iff)
qed

text \<open>
  The example tree with \<^verbatim>\<open>.git\<close> and \<^verbatim>\<open>ghost\<close> excluded.
\<close>

theorem walkDir_no_excluded_path_witness:
  "walkDir 3 (demo ''/work/repo'') ''/work/repo'' [''.git'', ''ghost''] 1048576 [] =
     Some demo_tree \<and>
   all_paths demo_tree = [''src'', ''src/a.txt'', ''locked'', ''README.md''] \<and>
   \<not> (\<exists>ps ss. ''src/a.txt'' = ps @ ''.git'' @ ss)"
proof -
  have w: "walkDir 3 (demo ''/work/repo'') ''/work/repo'' [''.git'', ''ghost''] 1048576 [] =
     Some demo_tree"
    by (simp add: walk_eval demo_defs path_defs)
  have p: "all_paths demo_tree = [''src'', ''src/a.txt'', ''locked'', ''README.md'']"
    by (simp add: demo_tree_def)
  have m: "''src/a.txt'' \<in> set (all_paths demo_tree)" by (simp add: p)
  have e: "''.git'' \<in> set [''.git'', ''ghost'']" by simp
  have "\<not> (\<exists>ps ss. ''src/a.txt'' = ps @ ''.git'' @ ss)"
    by (rule bspec [OF bspec [OF conjunct1 [OF walkDir_no_excluded_path [OF w]] m] e])
  with w p show ?thesis by (intro conjI)
qed


lemma produced_located:
  "list_all (produced pf ex lim dir) nodes \<Longrightarrow> (fp, f) \<in> set (located dir nodes) \<Longrightarrow>
     (\<exists>st. statSync pf fp = Inr st \<and> \<not> isDirectory st \<and> size_bytes st \<le> lim) \<and>
     isBinaryFileSync pf fp = Inr False \<and> readFileSync pf fp = Inr (content f)"
  by (induction dir nodes rule: located.induct) (auto split: sum.splits)

lemma walkDir_located:
  assumes "walkDir n pf root ex lim [] = Some nodes" and "(fp, f) \<in> set (located root nodes)"
  shows "(\<exists>st. statSync pf fp = Inr st \<and> \<not> isDirectory st \<and> size_bytes st \<le> lim) \<and>
     isBinaryFileSync pf fp = Inr False \<and> readFileSync pf fp = Inr (content f)"
proof -
  have "list_all (produced pf ex lim root) nodes"
    using walkDir_produced [OF assms(1)] by simp
  then show ?thesis using assms(2) by (rule produced_located)
qed

lemma visit_skip:
  "visit rec pf dir ex lim f = Some [] \<Longrightarrow>
     walkLoop rec pf dir ex lim (f # rest) files = walkLoop rec pf dir ex lim rest files"
  by (simp add: walkLoop_Cons)

text \<open>
  C5. An entry that is a regular file of size strictly above \<open>fileSizeLimit\<close> pushes
  nothing, and the loop goes on with the remaining entries; no \<open>File\<close> node of any tree
  that the walker returns stands for that file. The default limit is 1048576 bytes.
\<close>

theorem walkDir_skips_oversized:
  assumes "statSync pf (path_join dir f) = Inr st" and "\<not> isDirectory st"
    and "fileSizeLimit < size_bytes st"
  shows "walkLoop rec pf dir excludes fileSizeLimit (f # rest) files =
           walkLoop rec pf dir excludes fileSizeLimit rest files \<and>
         (\<forall>n root nodes. walkDir n pf root excludes fileSizeLimit [] = Some nodes \<longrightarrow>
            path_join dir f \<notin> fst ` set (located root nodes)) \<and>
         DEFAULT_FILE_SIZE_LIMIT = 1048576"
proof (intro conjI)
  show "DEFAULT_FILE_SIZE_LIMIT = 1048576"
    by (simp add: DEFAULT_FILE_SIZE_LIMIT_def)
  have "visit rec pf dir excludes fileSizeLimit f = Some []"
    using assms by (simp add: visit_def walkLoop.simps(2) Let_def)
  then show "walkLoop rec pf dir excludes fileSizeLimit (f # rest) files =
           walkLoop rec pf dir excludes fileSizeLimit rest files"
    by (rule visit_skip)
  show "\<forall>n root nodes. walkDir n pf root excludes fileSizeLimit [] = Some nodes \<longrightarrow>
            path_join dir f \<notin> fst ` set (located root nodes)"
  proof (intro allI impI notI)
    fix n root nodes
    assume w: "walkDir n pf root excludes fileSizeLimit [] = Some nodes"
      and "path_join dir f \<in> fst ` set (located root nodes)"
    then obtain nd where "(path_join dir f, nd) \<in> set (located root nodes)" by auto
    from walkDir_located [OF w this] assms show False by auto
  qed
qed

text \<open>
  C6. An entry that \<^verbatim>\<open>isBinaryFileSync\<close> reports as binary pushes nothing, whatever its
  size, and the loop goes on with the remaining entries; no \<open>File\<close> node of any tree
  that the walker returns stands for that file.
\<close>

theorem walkDir_skips_binary:
  assumes "isBinaryFileSync pf (path_join dir f) = Inr True"
  shows "(\<forall>st. statSync pf (path_join dir f) = Inr st \<and> \<not> isDirectory st \<longrightarrow>
            walkLoop rec pf dir excludes fileSizeLimit (f # rest) files =
            walkLoop rec pf dir excludes fileSizeLimit rest files) \<and>
         (\<forall>n root nodes. walkDir n pf root excludes fileSizeLimit [] = Some nodes \<longrightarrow>
            path_join dir f \<notin> fst ` set (located root nodes))"
proof
  show "\<forall>st. statSync pf (path_join dir f) = Inr st \<and> \<not> isDirectory st \<longrightarrow>
            walkLoop rec pf dir excludes fileSizeLimit (f # rest) files =
            walkLoop rec pf dir excludes fileSizeLimit rest files"
  proof (intro allI impI)
    fix st assume "statSync pf (path_join dir f) = Inr st \<and> \<not> isDirectory st"
    then have "visit rec pf dir excludes fileSizeLimit f = Some []"
      using assms by (simp add: visit_def walkLoop.simps(2) Let_def)
    then show "walkLoop rec pf dir excludes fileSizeLimit (f # rest) files =
            walkLoop rec pf dir excludes fileSizeLimit rest files"
      by (rule visit_skip)
  qed
  show "\<forall>n root nodes. walkDir n pf root excludes fileSizeLimit [] = Some nodes \<longrightarrow>
            path_join dir f \<notin> fst ` set (located root nodes)"
  proof (intro allI impI notI)
    fix n root nodes
    assume w: "walkDir n pf root excludes fileSizeLimit [] = Some nodes"
      and "path_join dir f \<in> fst ` set (located root nodes)"
    then obtain nd where "(path_join dir f, nd) \<in> set (located root nodes)" by auto
    from walkDir_located [OF w this] assms show False by auto
  qed
qed

lemma those_concat_subseq:
  assumes "those (map g es) = Some nss"
    and "\<And>e ns. e \<in> set es \<Longrightarrow> g e = Some ns \<Longrightarrow> ns = [] \<or> (\<exists>nd. ns = [nd] \<and> name nd = e)"
  shows "subseq (map name (concat nss)) es"
  using assms
proof (induction es arbitrary: nss)
  case Nil
  then show ?case by simp
next
  case (Cons e es)
  from Cons.prems(1) obtain ns nss' where g: "g e = Some ns"
    and t: "those (map g es) = Some nss'" and n: "nss = ns # nss'"
    by (auto split: option.splits)
  have IH: "subseq (map name (concat nss')) es"
    using Cons.IH [OF t] Cons.prems(2) by simp
  from Cons.prems(2) [of e ns] g
  consider "ns = []" | nd where "ns = [nd]" "name nd = e" by auto
  then show ?case
  proof cases
    case 1
    with IH n show ?thesis by (simp add: list_emb_Cons)
  next
    case 2
    with IH n show ?thesis by simp
  qed
qed

lemma visit_shape:
  "visit rec pf dir ex lim e = Some ns \<Longrightarrow>
     ns = [] \<or> (\<exists>p c. ns = [File e p c]) \<or>
     (\<exists>p sub. ns = [Directory e p sub] \<and> rec (path_join dir e) = Some sub)"
  using visit_Some [of rec pf dir ex lim e ns] by auto

text \<open>
  C7. The result for a directory is the concatenation, in the order of the listing, of
  what each entry yields: nothing or one node named after the entry. A \<open>Directory\<close> node
  carries the whole result of the walk of that directory, which is computed inside the
  iteration of its entry, before the next entry. So the names of the nodes are a
  subsequence of the listing: nothing is sorted.
\<close>

theorem walkDir_listing_order:
  assumes "readdirSync pf dir = Inr entries"
  shows "walkDir (Suc n) pf dir ex lim [] =
           map_option concat
             (those (map (visit (\<lambda>d. walkDir n pf d ex lim []) pf dir ex lim) entries)) \<and>
         (\<forall>e ns. visit (\<lambda>d. walkDir n pf d ex lim []) pf dir ex lim e = Some ns \<longrightarrow>
            ns = [] \<or> (\<exists>p c. ns = [File e p c]) \<or>
            (\<exists>p sub. ns = [Directory e p sub] \<and>
               walkDir n pf (path_join dir e) ex lim [] = Some sub)) \<and>
         (\<forall>nodes. walkDir (Suc n) pf dir ex lim [] = Some nodes \<longrightarrow>
            subseq (map name nodes) entries)"
proof (intro conjI allI impI)
  let ?rec = "\<lambda>d. walkDir n pf d ex lim []"
  show eq: "walkDir (Suc n) pf dir ex lim [] =
           map_option concat (those (map (visit ?rec pf dir ex lim) entries))"
    using assms by (simp add: walkLoop_those)
  show "ns = [] \<or> (\<exists>p c. ns = [File e p c]) \<or>
        (\<exists>p sub. ns = [Directory e p sub] \<and> walkDir n pf (path_join dir e) ex lim [] = Some sub)"
    if "visit ?rec pf dir ex lim e = Some ns" for e ns
    using visit_shape [OF that] .
  show "subseq (map name nodes) entries"
    if "walkDir (Suc n) pf dir ex lim [] = Some nodes" for nodes
  proof -
    from that eq
    have "map_option concat (those (map (visit ?rec pf dir ex lim) entries)) = Some nodes"
      by (simp only:)
    then obtain nss where t: "those (map (visit ?rec pf dir ex lim) entries) = Some nss"
      and c: "nodes = concat nss"
      by (cases "those (map (visit ?rec pf dir ex lim) entries)") auto
    have "ns = [] \<or> (\<exists>nd. ns = [nd] \<and> name nd = e)"
      if "visit ?rec pf dir ex lim e = Some ns" for e ns
      using visit_shape [OF that] by auto
    with those_concat_subseq [OF t] c show ?thesis by blast
  qed
qed

text \<open>
  C8. A listing that fails gives the empty sequence. An entry whose \<^verbatim>\<open>statSync\<close>,
  \<^verbatim>\<open>isBinaryFileSync\<close> or \<^verbatim>\<open>readFileSync\<close> fails is left out and the loop goes on with the
  remaining entries. A sub-directory whose listing fails gives a \<open>Directory\<close> node without
  children, and the loop goes on. The loop has no failure of its own: it returns
  whenever the nested calls return.
\<close>

theorem walkDir_failures_skip:
  "(\<forall>dir n err. readdirSync pf dir = Inl err \<longrightarrow>
      walkDir (Suc n) pf dir ex lim [] = Some []) \<and>
   (\<forall>dir f rest files err. statSync pf (path_join dir f) = Inl err \<longrightarrow>
      walkLoop rec pf dir ex lim (f # rest) files = walkLoop rec pf dir ex lim rest files) \<and>
   (\<forall>dir f rest files st err.
      statSync pf (path_join dir f) = Inr st \<and> \<not> isDirectory st \<and>
      isBinaryFileSync pf (path_join dir f) = Inl err \<longrightarrow>
      walkLoop rec pf dir ex lim (f # rest) files = walkLoop rec pf dir ex lim rest files) \<and>
   (\<forall>dir f rest files st err.
      statSync pf (path_join dir f) = Inr st \<and> \<not> isDirectory st \<and>
      readFileSync pf (path_join dir f) = Inl err \<longrightarrow>
      walkLoop rec pf dir ex lim (f # rest) files = walkLoop rec pf dir ex lim rest files) \<and>
   (\<forall>dir f rest files st err n.
      statSync pf (path_join dir f) = Inr st \<and> isDirectory st \<and>
      \<not> excluded ex (path_relative (cwd pf) (cwd pf) (path_join dir f)) \<and>
      readdirSync pf (path_join dir f) = Inl err \<longrightarrow>
      walkLoop (\<lambda>d. walkDir (Suc n) pf d ex lim []) pf dir ex lim (f # rest) files =
      walkLoop (\<lambda>d. walkDir (Suc n) pf d ex lim []) pf dir ex lim rest
        (files @ [Directory f (path_relative (cwd pf) (cwd pf) (path_join dir f)) []])) \<and>
   (\<forall>dir es files. (\<forall>d. rec d \<noteq> None) \<longrightarrow> walkLoop rec pf dir ex lim es files \<noteq> None)"
proof (intro conjI allI impI)
  show "walkDir (Suc n) pf dir ex lim [] = Some []" if "readdirSync pf dir = Inl err" for dir n err
    using that by simp
  show "walkLoop rec pf dir ex lim (f # rest) files = walkLoop rec pf dir ex lim rest files"
    if "statSync pf (path_join dir f) = Inl err" for dir f rest files err
    using that by (simp add: walkLoop.simps(2) Let_def)
  show "walkLoop rec pf dir ex lim (f # rest) files = walkLoop rec pf dir ex lim rest files"
    if "statSync pf (path_join dir f) = Inr st \<and> \<not> isDirectory st \<and>
        isBinaryFileSync pf (path_join dir f) = Inl err" for dir f rest files st err
    using that by (simp add: walkLoop.simps(2) Let_def)
  show "walkLoop rec pf dir ex lim (f # rest) files = walkLoop rec pf dir ex lim rest files"
    if "statSync pf (path_join dir f) = Inr st \<and> \<not> isDirectory st \<and>
        readFileSync pf (path_join dir f) = Inl err" for dir f rest files st err
    using that by (simp add: walkLoop.simps(2) Let_def split: sum.split)
  show "walkLoop (\<lambda>d. walkDir (Suc n) pf d ex lim []) pf dir ex lim (f # rest) files =
      walkLoop (\<lambda>d. walkDir (Suc n) pf d ex lim []) pf dir ex lim rest
        (files @ [Directory f (path_relative (cwd pf) (cwd pf) (path_join dir f)) []])"
    if "statSync pf (path_join dir f) = Inr st \<and> isDirectory st \<and>
      \<not> excluded ex (path_relative (cwd pf) (cwd pf) (path_join dir f)) \<and>
      readdirSync pf (path_join dir f) = Inl err" for dir f rest files st err n
    using that by (simp add: walkLoop.simps(2) Let_def)
  show "walkLoop rec pf dir ex lim es files \<noteq> None" if r: "\<forall>d. rec d \<noteq> None" for dir es files
  proof (induction es arbitrary: files)
    case Nil
    show ?case by simp
  next
    case (Cons e es)
    from r obtain sub where "rec (path_join dir e) = Some sub" by auto
    with Cons show ?case
      by (simp add: walkLoop.simps(2) Let_def split: sum.split)
  qed
qed

lemma demo_walk:
  "walkDir 3 (demo ''/work/repo'') ''/work/repo'' [''.git''] 1048576 [] = Some demo_tree"
  by (simp add: walk_eval demo_defs path_defs)

text \<open>
  \<^verbatim>\<open>src/big.bin\<close> has 2097152 bytes, the limit is 1048576.
\<close>

theorem walkDir_skips_oversized_witness:
  "statSync (demo ''/work/repo'') (path_join ''/work/repo/src'' ''big.bin'') =
     Inr \<lparr>isDirectory = False, size_bytes = 2097152\<rparr> \<and>
   walkLoop (\<lambda>d. None) (demo ''/work/repo'') ''/work/repo/src'' [''.git''] 1048576
     [''big.bin'', ''a.txt''] [] = Some [File ''a.txt'' ''src/a.txt'' ''hello''] \<and>
   walkDir 3 (demo ''/work/repo'') ''/work/repo'' [''.git''] 1048576 [] = Some demo_tree \<and>
   ''/work/repo/src/big.bin'' \<notin> fst ` set (located ''/work/repo'' demo_tree)"
proof -
  let ?pf = "demo ''/work/repo''"
  have s: "statSync ?pf (path_join ''/work/repo/src'' ''big.bin'') =
     Inr \<lparr>isDirectory = False, size_bytes = 2097152\<rparr>"
    by (simp add: demo_defs path_defs)
  have j: "path_join ''/work/repo/src'' ''big.bin'' = ''/work/repo/src/big.bin''"
    by (simp add: path_defs)
  note t = walkDir_skips_oversized [of ?pf "''/work/repo/src''" "''big.bin''"
      "\<lparr>isDirectory = False, size_bytes = 2097152\<rparr>" 1048576 "\<lambda>d. None" "[''.git'']"
      "[''a.txt'']" "[]", OF s]
  have r: "walkLoop (\<lambda>d. None) ?pf ''/work/repo/src'' [''.git''] 1048576 [''a.txt''] [] =
     Some [File ''a.txt'' ''src/a.txt'' ''hello'']"
    by (simp add: walk_eval demo_defs path_defs)
  from t [THEN conjunct1]
  have "walkLoop (\<lambda>d. None) ?pf ''/work/repo/src'' [''.git''] 1048576
     [''big.bin'', ''a.txt''] [] = Some [File ''a.txt'' ''src/a.txt'' ''hello'']"
    by (simp add: r)
  moreover from t [THEN conjunct2, THEN conjunct1] demo_walk
  have "''/work/repo/src/big.bin'' \<notin> fst ` set (located ''/work/repo'' demo_tree)"
    by (simp add: j)
  ultimately show ?thesis using s demo_walk by simp
qed

text \<open>
  \<^verbatim>\<open>src/logo.png\<close> has 100 bytes and is binary.
\<close>

theorem walkDir_skips_binary_witness:
  "isBinaryFileSync (demo ''/work/repo'') (path_join ''/work/repo/src'' ''logo.png'') = Inr True \<and>
   statSync (demo ''/work/repo'') (path_join ''/work/repo/src'' ''logo.png'') =
     Inr \<lparr>isDirectory = False, size_bytes = 100\<rparr> \<and>
   walkLoop (\<lambda>d. None) (demo ''/work/repo'') ''/work/repo/src'' [''.git''] 1048576
     [''logo.png'', ''a.txt''] [] = Some [File ''a.txt'' ''src/a.txt'' ''hello''] \<and>
   walkDir 3 (demo ''/work/repo'') ''/work/repo'' [''.git''] 1048576 [] = Some demo_tree \<and>
   ''/work/repo/src/logo.png'' \<notin> fst ` set (located ''/work/repo'' demo_tree)"
proof -
  let ?pf = "demo ''/work/repo''"
  have b: "isBinaryFileSync ?pf (path_join ''/work/repo/src'' ''logo.png'') = Inr True"
    by (simp add: demo_defs path_defs)
  have s: "statSync ?pf (path_join ''/work/repo/src'' ''logo.png'') =
     Inr \<lparr>isDirectory = False, size_bytes = 100\<rparr>"
    by (simp add: demo_defs path_defs)
  have j: "path_join ''/work/repo/src'' ''logo.png'' = ''/work/repo/src/logo.png''"
    by (simp add: path_defs)
  note t = walkDir_skips_binary [of ?pf "''/work/repo/src''" "''logo.png''"
      "\<lambda>d. None" "[''.git'']" 1048576 "[''a.txt'']" "[]", OF b]
  have r: "walkLoop (\<lambda>d. None) ?pf ''/work/repo/src'' [''.git''] 1048576 [''a.txt''] [] =
     Some [File ''a.txt'' ''src/a.txt'' ''hello'']"
    by (simp add: walk_eval demo_defs path_defs)
  from t s have "walkLoop (\<lambda>d. None) ?pf ''/work/repo/src'' [''.git''] 1048576
     [''logo.png'', ''a.txt''] [] = Some [File ''a.txt'' ''src/a.txt'' ''hello'']"
    by (simp add: r)
  moreover from t demo_walk
  have "''/work/repo/src/logo.png'' \<notin> fst ` set (located ''/work/repo'' demo_tree)"
    by (simp add: j)
  ultimately show ?thesis using b s demo_walk by simp
qed

text \<open>
  The listing of the example is not sorted, and the nodes keep its order.
\<close>

theorem walkDir_listing_order_witness:
  "readdirSync (demo ''/work/repo'') ''/work/repo'' =
     Inr [''src'', ''.git'', ''locked'', ''ghost'', ''README.md''] \<and>
   walkDir 3 (demo ''/work/repo'') ''/work/repo'' [''.git''] 1048576 [] = Some demo_tree \<and>
   map name demo_tree = [''src'', ''locked'', ''README.md''] \<and>
   subseq (map name demo_tree) [''src'', ''.git'', ''locked'', ''ghost'', ''README.md'']"
proof -
  let ?pf = "demo ''/work/repo''"
  have l: "readdirSync ?pf ''/work/repo'' =
     Inr [''src'', ''.git'', ''locked'', ''ghost'', ''README.md'']"
    by (simp add: demo_defs)
  have w: "walkDir (Suc 2) ?pf ''/work/repo'' [''.git''] 1048576 [] = Some demo_tree"
    using demo_walk by (simp only: numeral_3_eq_3 numeral_2_eq_2)
  from walkDir_listing_order [OF l, of 2 "[''.git'']" 1048576] w
  have "subseq (map name demo_tree) [''src'', ''.git'', ''locked'', ''ghost'', ''README.md'']"
    by blast
  moreover have "map name demo_tree = [''src'', ''locked'', ''README.md'']"
    by (simp add: demo_tree_def)
  ultimately show ?thesis using l demo_walk by simp
qed

text \<open>
  In the example \<^verbatim>\<open>locked\<close> cannot be listed, \<^verbatim>\<open>ghost\<close> cannot be examined, the binary
  check of \<^verbatim>\<open>src/odd.dat\<close> fails and \<^verbatim>\<open>src/secret.txt\<close> cannot be read.
\<close>

theorem walkDir_failures_skip_witness:
  "walkDir (Suc 0) (demo ''/work/repo'') ''/work/repo/locked'' [''.git''] 1048576 [] = Some [] \<and>
   walkLoop (\<lambda>d. Some []) (demo ''/work/repo'') ''/work/repo'' [''.git''] 1048576
     [''ghost'', ''README.md''] [] = Some [File ''README.md'' ''README.md'' ''# hi\<newline>''] \<and>
   walkLoop (\<lambda>d. Some []) (demo ''/work/repo'') ''/work/repo/src'' [''.git''] 1048576
     [''odd.dat'', ''a.txt''] [] = Some [File ''a.txt'' ''src/a.txt'' ''hello''] \<and>
   walkLoop (\<lambda>d. Some []) (demo ''/work/repo'') ''/work/repo/src'' [''.git''] 1048576
     [''secret.txt'', ''a.txt''] [] = Some [File ''a.txt'' ''src/a.txt'' ''hello''] \<and>
   walkLoop (\<lambda>d. walkDir (Suc 0) (demo ''/work/repo'') d [''.git''] 1048576 [])
     (demo ''/work/repo'') ''/work/repo'' [''.git''] 1048576 [''locked'', ''README.md''] [] =
     Some [Directory ''locked'' ''locked'' [], File ''README.md'' ''README.md'' ''# hi\<newline>''] \<and>
   walkLoop (\<lambda>d. Some []) (demo ''/work/repo'') ''/work/repo'' [''.git''] 1048576
     [''src'', ''.git'', ''locked'', ''ghost'', ''README.md''] [] \<noteq> None"
proof -
  let ?pf = "demo ''/work/repo''"
  let ?rec = "\<lambda>d::string. Some ([] :: node list)"
  note t = walkDir_failures_skip [of ?pf "[''.git'']" 1048576 ?rec]
  note t1 = t [THEN conjunct1, rule_format]
  note t2 = t [THEN conjunct2, THEN conjunct1, rule_format]
  note t3 = t [THEN conjunct2, THEN conjunct2, THEN conjunct1, rule_format]
  note t4 = t [THEN conjunct2, THEN conjunct2, THEN conjunct2, THEN conjunct1, rule_format]
  note t5 = t [THEN conjunct2, THEN conjunct2, THEN conjunct2, THEN conjunct2, THEN conjunct1,
      rule_format]
  note t6 = t [THEN conjunct2, THEN conjunct2, THEN conjunct2, THEN conjunct2, THEN conjunct2,
      rule_format]
  have l: "readdirSync ?pf ''/work/repo/locked'' = Inl ''EACCES: permission denied, scandir''"
    by (simp add: demo_defs)
  have c1: "walkDir (Suc 0) ?pf ''/work/repo/locked'' [''.git''] 1048576 [] = Some []"
    by (rule t1 [OF l])
  have readme: "walkLoop ?rec ?pf ''/work/repo'' [''.git''] 1048576 [''README.md''] files =
     Some (files @ [File ''README.md'' ''README.md'' ''# hi\<newline>''])" for files
    by (simp add: walk_eval demo_defs path_defs)
  have g: "statSync ?pf (path_join ''/work/repo'' ''ghost'') =
     Inl ''ENOENT: no such file or directory, stat''"
    by (simp add: demo_defs path_defs)
  have c2: "walkLoop ?rec ?pf ''/work/repo'' [''.git''] 1048576 [''ghost'', ''README.md''] [] =
     Some [File ''README.md'' ''README.md'' ''# hi\<newline>'']"
    using t2 [OF g, of "[''README.md'']" "[]"] readme [of "[]"] by simp
  have a: "walkLoop ?rec ?pf ''/work/repo/src'' [''.git''] 1048576 [''a.txt''] [] =
     Some [File ''a.txt'' ''src/a.txt'' ''hello'']"
    by (simp add: walk_eval demo_defs path_defs)
  have o: "statSync ?pf (path_join ''/work/repo/src'' ''odd.dat'') =
       Inr \<lparr>isDirectory = False, size_bytes = 7\<rparr> \<and>
     \<not> isDirectory \<lparr>isDirectory = False, size_bytes = 7\<rparr> \<and>
     isBinaryFileSync ?pf (path_join ''/work/repo/src'' ''odd.dat'') = Inl ''EIO: i/o error, read''"
    by (simp add: demo_defs path_defs)
  have c3: "walkLoop ?rec ?pf ''/work/repo/src'' [''.git''] 1048576 [''odd.dat'', ''a.txt''] [] =
     Some [File ''a.txt'' ''src/a.txt'' ''hello'']"
    using t3 [OF o, of "[''a.txt'']" "[]"] a by simp
  have s: "statSync ?pf (path_join ''/work/repo/src'' ''secret.txt'') =
       Inr \<lparr>isDirectory = False, size_bytes = 10\<rparr> \<and>
     \<not> isDirectory \<lparr>isDirectory = False, size_bytes = 10\<rparr> \<and>
     readFileSync ?pf (path_join ''/work/repo/src'' ''secret.txt'') =
       Inl ''EACCES: permission denied, open''"
    by (simp add: demo_defs path_defs)
  have c4: "walkLoop ?rec ?pf ''/work/repo/src'' [''.git''] 1048576 [''secret.txt'', ''a.txt''] [] =
     Some [File ''a.txt'' ''src/a.txt'' ''hello'']"
    using t4 [OF s, of "[''a.txt'']" "[]"] a by simp
  have k: "statSync ?pf (path_join ''/work/repo'' ''locked'') =
       Inr \<lparr>isDirectory = True, size_bytes = 4096\<rparr> \<and>
     isDirectory \<lparr>isDirectory = True, size_bytes = 4096\<rparr> \<and>
     \<not> excluded [''.git''] (path_relative (cwd ?pf) (cwd ?pf) (path_join ''/work/repo'' ''locked'')) \<and>
     readdirSync ?pf (path_join ''/work/repo'' ''locked'') = Inl ''EACCES: permission denied, scandir''"
    by (simp add: demo_defs path_defs excluded_def)
  have c5: "walkLoop (\<lambda>d. walkDir (Suc 0) ?pf d [''.git''] 1048576 []) ?pf
     ''/work/repo'' [''.git''] 1048576 [''locked'', ''README.md''] [] =
     Some [Directory ''locked'' ''locked'' [], File ''README.md'' ''README.md'' ''# hi\<newline>'']"
    using t5 [OF k, of 0 "[''README.md'']" "[]"]
    by (simp add: walk_eval demo_defs path_defs)
  have c6: "walkLoop ?rec ?pf ''/work/repo'' [''.git''] 1048576
     [''src'', ''.git'', ''locked'', ''ghost'', ''README.md''] [] \<noteq> None"
    by (rule t6) simp
  from c1 c2 c3 c4 c5 c6 show ?thesis by (intro conjI)
qed

section \<open>Termination of the walk\<close>

lemma visit_returns:
  assumes "\<And>st. \<not> excluded ex (path_relative (cwd pf) (cwd pf) (path_join dir e)) \<Longrightarrow>
             statSync pf (path_join dir e) = Inr st \<Longrightarrow> isDirectory st \<Longrightarrow>
             rec (path_join dir e) \<noteq> None"
  shows "visit rec pf dir ex lim e \<noteq> None"
  using assms
  by (auto simp add: visit_def walkLoop.simps(2) Let_def split: sum.split)

lemma walkLoop_returns:
  assumes "\<And>e st. e \<in> set es \<Longrightarrow>
             \<not> excluded ex (path_relative (cwd pf) (cwd pf) (path_join dir e)) \<Longrightarrow>
             statSync pf (path_join dir e) = Inr st \<Longrightarrow> isDirectory st \<Longrightarrow>
             rec (path_join dir e) \<noteq> None"
  shows "walkLoop rec pf dir ex lim es files \<noteq> None"
  using assms
proof (induction es arbitrary: files)
  case Nil
  show ?case by simp
next
  case (Cons e es)
  have "visit rec pf dir ex lim e \<noteq> None"
    by (rule visit_returns) (rule Cons.prems, simp_all)
  then obtain ns where v: "visit rec pf dir ex lim e = Some ns" by auto
  have "walkLoop rec pf dir ex lim es (files @ ns) \<noteq> None"
    by (rule Cons.IH) (rule Cons.prems, simp_all)
  with v show ?case by (simp add: walkLoop_Cons)
qed

lemma walkLoop_mono:
  assumes "\<And>d sub. rec d = Some sub \<Longrightarrow> rec' d = Some sub"
  shows "walkLoop rec pf dir ex lim es files = Some out \<Longrightarrow>
         walkLoop rec' pf dir ex lim es files = Some out"
proof (induction es arbitrary: files)
  case Nil
  then show ?case by simp
next
  case (Cons e es)
  then show ?case
    using assms [of "path_join dir e"]
    by (auto simp add: walkLoop.simps(2) Let_def split: sum.splits if_splits option.splits)
qed

lemma walkDir_Suc_mono:
  "walkDir n pf dir ex lim files = Some out \<Longrightarrow> walkDir (Suc n) pf dir ex lim files = Some out"
proof (induction n arbitrary: dir files out)
  case 0
  then show ?case by simp
next
  case (Suc n)
  show ?case
  proof (cases "readdirSync pf dir")
    case (Inl err)
    with Suc.prems show ?thesis by simp
  next
    case (Inr entries)
    with Suc.prems
    have "walkLoop (\<lambda>d. walkDir n pf d ex lim []) pf dir ex lim entries files = Some out"
      by simp
    then have "walkLoop (\<lambda>d. walkDir (Suc n) pf d ex lim []) pf dir ex lim entries files = Some out"
      by (rule walkLoop_mono [rotated]) (rule Suc.IH)
    with Inr show ?thesis by simp
  qed
qed

lemma walkDir_mono:
  "walkDir n pf dir ex lim files = Some out \<Longrightarrow> n \<le> m \<Longrightarrow>
     walkDir m pf dir ex lim files = Some out"
  by (induction m) (auto simp add: le_Suc_eq walkDir_Suc_mono simp del: walkDir.simps)

text \<open>
  C9. The walker calls itself only on entries that are not excluded and whose
  \<^verbatim>\<open>statSync\<close> reports a directory. When that relation is well-founded (every listing is a
  finite array, and no chain of directories goes down for ever, as a cycle of symbolic
  links would make one), the walk of any directory returns: from some depth bound on,
  the result is the same tree.
\<close>

theorem walkDir_terminates:
  assumes "wf (descends pf excludes)"
  shows "\<exists>n nodes. \<forall>m \<ge> n. walkDir m pf dir excludes fileSizeLimit [] = Some nodes"
proof -
  have ret: "\<exists>n. \<forall>files. walkDir n pf dir excludes fileSizeLimit files \<noteq> None" for dir
    using assms
  proof (induction dir rule: wf_induct_rule)
    case (less dir)
    show ?case
    proof (cases "readdirSync pf dir")
      case (Inl err)
      then have "\<forall>files. walkDir (Suc 0) pf dir excludes fileSizeLimit files \<noteq> None" by simp
      then show ?thesis ..
    next
      case (Inr entries)
      let ?D = "\<lambda>e. \<not> excluded excludes (path_relative (cwd pf) (cwd pf) (path_join dir e)) \<and>
                   (\<exists>st. statSync pf (path_join dir e) = Inr st \<and> isDirectory st)"
      have "\<exists>n. \<forall>files. walkDir n pf (path_join dir e) excludes fileSizeLimit files \<noteq> None"
        if "e \<in> set entries" "?D e" for e
      proof (rule less.IH)
        show "(path_join dir e, dir) \<in> descends pf excludes"
          using that Inr by (auto simp add: descends_def)
      qed
      then have "\<forall>e \<in> {e \<in> set entries. ?D e}. \<exists>n.
                   walkDir n pf (path_join dir e) excludes fileSizeLimit [] \<noteq> None"
        by blast
      then obtain k where k: "\<forall>e \<in> {e \<in> set entries. ?D e}.
                   walkDir (k e) pf (path_join dir e) excludes fileSizeLimit [] \<noteq> None"
        by (rule bchoice [THEN exE])
      define N where "N = sum_list (map k entries)"
      have "walkDir N pf (path_join dir e) excludes fileSizeLimit [] \<noteq> None"
        if "e \<in> set entries" "?D e" for e
      proof -
        from k that obtain sub
          where s: "walkDir (k e) pf (path_join dir e) excludes fileSizeLimit [] = Some sub"
          by auto
        have "k e \<le> N" unfolding N_def using that(1) by (simp add: member_le_sum_list)
        from walkDir_mono [OF s this] show ?thesis by simp
      qed
      then have "walkLoop (\<lambda>d. walkDir N pf d excludes fileSizeLimit []) pf dir excludes
                   fileSizeLimit entries files \<noteq> None" for files
        by (intro walkLoop_returns) blast
      with Inr have "\<forall>files. walkDir (Suc N) pf dir excludes fileSizeLimit files \<noteq> None"
        by simp
      then show ?thesis ..
    qed
  qed
  from ret [of dir] obtain n where "walkDir n pf dir excludes fileSizeLimit [] \<noteq> None"
    by blast
  then obtain nodes where "walkDir n pf dir excludes fileSizeLimit [] = Some nodes"
    by blast
  then have "\<forall>m \<ge> n. walkDir m pf dir excludes fileSizeLimit [] = Some nodes"
    using walkDir_mono by blast
  then show ?thesis by blast
qed


lemma demo_readdir_Inr:
  "demo_readdir d = Inr es \<Longrightarrow>
     d = ''/work/repo'' \<and> es = [''src'', ''.git'', ''locked'', ''ghost'', ''README.md''] \<or>
     d = ''/work/repo/src'' \<and> es = [''big.bin'', ''a.txt'', ''logo.png'', ''secret.txt'', ''odd.dat''] \<or>
     d = ''/work/repo/.git'' \<and> es = [''config'']"
  by (simp add: demo_readdir_def split: if_splits)

lemma demo_stat_dir:
  "demo_stat f = Inr st \<Longrightarrow> isDirectory st \<Longrightarrow>
     f \<in> {''/work/repo'', ''/work/repo/src'', ''/work/repo/.git'', ''/work/repo/locked''}"
  by (auto simp add: demo_stat_def split: if_splits)

lemma demo_joins:
  "e \<in> set [''src'', ''.git'', ''locked'', ''ghost'', ''README.md''] \<Longrightarrow>
     path_join ''/work/repo'' e = ''/work/repo/'' @ e"
  "e \<in> set [''big.bin'', ''a.txt'', ''logo.png'', ''secret.txt'', ''odd.dat''] \<Longrightarrow>
     path_join ''/work/repo/src'' e = ''/work/repo/src/'' @ e"
  "path_join ''/work/repo/.git'' ''config'' = ''/work/repo/.git/config''"
  by (auto simp add: path_defs)

lemma demo_descends:
  "descends (demo wd) ex \<subseteq> measure (\<lambda>d. if d = ''/work/repo'' then 1 else 0)"
proof
  fix x assume x: "x \<in> descends (demo wd) ex"
  obtain d' d where xd: "x = (d', d)" by (cases x)
  from x xd obtain entries e st where l: "demo_readdir d = Inr entries" and e: "e \<in> set entries"
    and j: "d' = path_join d e" and st: "demo_stat d' = Inr st" "isDirectory st"
    by (auto simp add: descends_def demo_def)
  from demo_stat_dir [OF st]
  have d': "d' \<in> {''/work/repo'', ''/work/repo/src'', ''/work/repo/.git'', ''/work/repo/locked''}" .
  from demo_readdir_Inr [OF l]
  consider "d = ''/work/repo''" "entries = [''src'', ''.git'', ''locked'', ''ghost'', ''README.md'']"
    | "d = ''/work/repo/src''"
      "entries = [''big.bin'', ''a.txt'', ''logo.png'', ''secret.txt'', ''odd.dat'']"
    | "d = ''/work/repo/.git''" "entries = [''config'']"
    by blast
  then have "d = ''/work/repo'' \<and> d' \<noteq> ''/work/repo''"
  proof cases
    case 1
    with e j have "d' = ''/work/repo/'' @ e" by (simp only: demo_joins(1))
    with 1 e show ?thesis by auto
  next
    case 2
    with e j have "d' = ''/work/repo/src/'' @ e" by (simp only: demo_joins(2))
    with 2 e d' show ?thesis by auto
  next
    case 3
    with e j have "d' = ''/work/repo/.git/config''" by (simp add: demo_joins(3))
    with d' show ?thesis by simp
  qed
  with xd show "x \<in> measure (\<lambda>d. if d = ''/work/repo'' then 1 else 0)" by simp
qed

text \<open>
  The example tree has no link: its directories are well-founded, and the walk returns
  the tree of the example.
\<close>

theorem walkDir_terminates_witness:
  "wf (descends (demo ''/work/repo'') [''.git'']) \<and>
   (\<exists>n. walkDir n (demo ''/work/repo'') ''/work/repo'' [''.git''] 1048576 [] = Some demo_tree)"
proof -
  have w: "wf (descends (demo ''/work/repo'') [''.git''])"
    by (rule wf_subset [OF wf_measure demo_descends])
  from walkDir_terminates [OF w, of "''/work/repo''" 1048576]
  obtain n nodes
    where n: "\<forall>m \<ge> n. walkDir m (demo ''/work/repo'') ''/work/repo'' [''.git''] 1048576 [] = Some nodes"
    by blast
  then have "walkDir (max n 3) (demo ''/work/repo'') ''/work/repo'' [''.git''] 1048576 [] = Some nodes"
    by simp
  moreover have "walkDir (max n 3) (demo ''/work/repo'') ''/work/repo'' [''.git''] 1048576 [] =
      Some demo_tree"
    by (rule walkDir_mono [OF demo_walk]) simp
  ultimately have "nodes = demo_tree" by simp
  with n have "walkDir n (demo ''/work/repo'') ''/work/repo'' [''.git''] 1048576 [] = Some demo_tree"
    by simp
  with w show ?thesis by blast
qed

text \<open>A directory that contains a link to itself: the walk never returns.\<close>

lemma walkDir_cycle_never_returns:
  "walkDir n \<lparr>cwd = ''/'', readdirSync = (\<lambda>d. Inr [''self'']),
               statSync = (\<lambda>f. Inr \<lparr>isDirectory = True, size_bytes = 0\<rparr>),
               isBinaryFileSync = (\<lambda>f. Inr False), readFileSync = (\<lambda>f. Inr [])\<rparr>
     dir [] lim files = None"
  by (induction n arbitrary: dir files) (simp_all add: walkLoop.simps(2) Let_def excluded_def)

section \<open>Paths\<close>

lemma split_sep_nonempty [simp]: "split_sep s \<noteq> []"
  by (induction s) (auto split: list.split)

lemma split_sep_append:
  "split_sep (a @ CHR ''/'' # b) = split_sep a @ split_sep b"
  by (induction a) (auto split: list.split)

lemma split_sep_plain: "CHR ''/'' \<notin> set s \<Longrightarrow> split_sep s = [s]"
  by (induction s) auto

lemma split_sep_no_sep: "x \<in> set (split_sep s) \<Longrightarrow> CHR ''/'' \<notin> set x"
  by (induction s arbitrary: x) (auto split: list.splits if_splits)

lemma split_join_sep:
  "xs \<noteq> [] \<Longrightarrow> \<forall>x \<in> set xs. CHR ''/'' \<notin> set x \<Longrightarrow> split_sep (join_sep xs) = xs"
proof (induction xs rule: join_sep.induct)
  case 1
  then show ?case by simp
next
  case (2 x)
  then show ?case by (simp add: split_sep_plain)
next
  case (3 x y ys)
  then show ?case by (simp add: split_sep_append split_sep_plain)
qed

lemma join_sep_empty_iff:
  "\<forall>x \<in> set xs. x \<noteq> [] \<Longrightarrow> join_sep xs = [] \<longleftrightarrow> xs = []"
  by (induction xs rule: join_sep.induct) auto

lemma join_sep_inject:
  assumes "\<forall>x \<in> set xs. x \<noteq> [] \<and> CHR ''/'' \<notin> set x"
    and "\<forall>y \<in> set ys. y \<noteq> [] \<and> CHR ''/'' \<notin> set y"
    and "join_sep xs = join_sep ys"
  shows "xs = ys"
proof (cases "xs = []")
  case True
  then have "join_sep ys = []" using assms(3) by simp
  then have "ys = []" using assms(2) by (simp add: join_sep_empty_iff)
  with True show ?thesis by simp
next
  case False
  then have "join_sep xs \<noteq> []" using assms(1) by (simp add: join_sep_empty_iff)
  then have "ys \<noteq> []" using assms(3) by auto
  have "xs = split_sep (join_sep xs)"
    using False assms(1) by (simp add: split_join_sep)
  also have "\<dots> = split_sep (join_sep ys)" by (simp only: assms(3))
  also have "\<dots> = ys"
    using \<open>ys \<noteq> []\<close> assms(2) by (simp add: split_join_sep)
  finally show ?thesis .
qed

lemma join_sep_snoc:
  "xs \<noteq> [] \<Longrightarrow> join_sep (xs @ [y]) = join_sep xs @ CHR ''/'' # y"
  by (induction xs rule: join_sep.induct) auto

lemma normalizeStep_valid:
  "valid_name nm \<Longrightarrow> normalizeStep a res nm = res @ [nm]"
  by (simp add: normalizeStep_def valid_name_def)

lemma foldl_normalizeStep_valid:
  "\<forall>nm \<in> set ns. valid_name nm \<Longrightarrow> foldl (normalizeStep a) res ns = res @ ns"
  by (induction ns arbitrary: res) (simp_all add: normalizeStep_valid)

lemma normalizeStep_seg_ok:
  "\<forall>x \<in> set res. seg_ok x \<Longrightarrow> CHR ''/'' \<notin> set s \<Longrightarrow>
     \<forall>x \<in> set (normalizeStep a res s). seg_ok x"
  by (auto simp add: normalizeStep_def seg_ok_def dest: in_set_butlastD)

lemma foldl_normalizeStep_seg_ok:
  "\<forall>x \<in> set res. seg_ok x \<Longrightarrow> \<forall>s \<in> set xs. CHR ''/'' \<notin> set s \<Longrightarrow>
     \<forall>x \<in> set (foldl (normalizeStep a) res xs). seg_ok x"
proof (induction xs arbitrary: res)
  case Nil
  then show ?case by simp
next
  case (Cons s xs)
  have "\<forall>x \<in> set (normalizeStep a res s). seg_ok x"
    using Cons.prems by (intro normalizeStep_seg_ok) auto
  then show ?case using Cons.IH Cons.prems by simp
qed

lemma normalizeSegs_seg_ok: "x \<in> set (normalizeSegs a p) \<Longrightarrow> seg_ok x"
  unfolding normalizeSegs_def
  using foldl_normalizeStep_seg_ok [of "[]" "split_sep p" a] split_sep_no_sep by auto

lemma normalizeStep_False_no_dotdot:
  "''..'' \<notin> set res \<Longrightarrow> ''..'' \<notin> set (normalizeStep False res s)"
  by (auto simp add: normalizeStep_def dest: in_set_butlastD)

lemma foldl_normalizeStep_False_no_dotdot:
  "''..'' \<notin> set res \<Longrightarrow> ''..'' \<notin> set (foldl (normalizeStep False) res xs)"
  by (induction xs arbitrary: res) (simp_all add: normalizeStep_False_no_dotdot)

lemma normalizeStep_plain:
  "\<forall>x \<in> set res. x \<noteq> [] \<and> x \<noteq> ''.'' \<Longrightarrow>
     \<forall>x \<in> set (normalizeStep a res s). x \<noteq> [] \<and> x \<noteq> ''.''"
  by (auto simp add: normalizeStep_def dest: in_set_butlastD)

lemma foldl_normalizeStep_plain:
  "\<forall>x \<in> set res. x \<noteq> [] \<and> x \<noteq> ''.'' \<Longrightarrow>
     \<forall>x \<in> set (foldl (normalizeStep a) res xs). x \<noteq> [] \<and> x \<noteq> ''.''"
proof (induction xs arbitrary: res)
  case Nil
  then show ?case by simp
next
  case (Cons s xs)
  show ?case using Cons.IH [OF normalizeStep_plain [OF Cons.prems]] by simp
qed

text \<open>Normalising twice changes nothing: the segments of a normalised relative path can
  be put after any prefix instead of the segments they came from.\<close>

lemma foldl_normalizeStep_normalized:
  "foldl (normalizeStep a) W (foldl (normalizeStep True) [] xs) = foldl (normalizeStep a) W xs"
proof (induction xs rule: rev_induct)
  case Nil
  show ?case by simp
next
  case (snoc x xs)
  let ?N = "foldl (normalizeStep True) [] xs"
  have ok: "\<forall>s \<in> set ?N. s \<noteq> [] \<and> s \<noteq> ''.''"
    by (rule foldl_normalizeStep_plain) simp
  show ?case
  proof (cases "x = ''..'' \<and> ?N \<noteq> [] \<and> last ?N \<noteq> ''..''")
    case True
    then obtain B s where N: "?N = B @ [s]" and s: "s \<noteq> ''..''"
      by (metis append_butlast_last_id last_snoc)
    from ok N have s': "s \<noteq> []" "s \<noteq> ''.''" by auto
    have "foldl (normalizeStep a) W xs = normalizeStep a (foldl (normalizeStep a) W B) s"
      using snoc.IH N by simp
    also have "\<dots> = foldl (normalizeStep a) W B @ [s]"
      using s s' by (simp add: normalizeStep_def)
    finally have "normalizeStep a (foldl (normalizeStep a) W xs) ''..'' = foldl (normalizeStep a) W B"
      using s by (simp add: normalizeStep_def)
    moreover have "normalizeStep True ?N x = B"
      using True N by (simp add: normalizeStep_def)
    ultimately show ?thesis using True by simp
  next
    case False
    have rhs: "foldl (normalizeStep a) W (xs @ [x]) = normalizeStep a (foldl (normalizeStep a) W ?N) x"
      by (simp add: snoc.IH)
    show ?thesis
    proof (cases "x = [] \<or> x = ''.''")
      case True
      then have "normalizeStep True ?N x = ?N" "normalizeStep a (foldl (normalizeStep a) W ?N) x =
          foldl (normalizeStep a) W ?N"
        by (auto simp add: normalizeStep_def)
      with rhs show ?thesis by simp
    next
      case plain: False
      with False have "normalizeStep True ?N x = ?N @ [x]"
        by (auto simp add: normalizeStep_def)
      with rhs show ?thesis by simp
    qed
  qed
qed

lemma last_not_sep: "s \<noteq> [] \<Longrightarrow> CHR ''/'' \<notin> set s \<Longrightarrow> last s \<noteq> CHR ''/''"
  using last_in_set by metis

lemma hd_not_sep: "s \<noteq> [] \<Longrightarrow> CHR ''/'' \<notin> set s \<Longrightarrow> \<not> isAbsolute s"
  by (cases s) (auto simp add: isAbsolute_def)

lemma join_sep_not_absolute:
  "L \<noteq> [] \<Longrightarrow> \<forall>x \<in> set L. x \<noteq> [] \<and> CHR ''/'' \<notin> set x \<Longrightarrow> \<not> isAbsolute (join_sep L)"
proof (induction L rule: join_sep.induct)
  case 1
  then show ?case by simp
next
  case (2 x)
  then show ?case by (simp add: hd_not_sep)
next
  case (3 x y ys)
  then show ?case by (cases x) (auto simp add: isAbsolute_def)
qed

lemma seg_ok_valid: "seg_ok s \<Longrightarrow> s \<noteq> ''..'' \<Longrightarrow> valid_name s"
  by (simp add: seg_ok_def valid_name_def)

lemma join_sep_snoc_nonempty:
  "y \<noteq> [] \<Longrightarrow> join_sep (xs @ [y]) \<noteq> []"
  by (induction xs rule: join_sep.induct) auto

lemma path_join_valid:
  assumes "valid_name nm"
  shows "path_join d nm =
     (if d = [] then nm
      else (if isAbsolute d then ''/'' else []) @
           join_sep (normalizeSegs (\<not> isAbsolute d) d @ [nm]))"
proof (cases "d = []")
  case True
  from assms have nm: "nm \<noteq> []" "CHR ''/'' \<notin> set nm" by (simp_all add: valid_name_def)
  have "normalizeSegs True nm = [nm]"
    using assms nm by (simp add: normalizeSegs_def split_sep_plain normalizeStep_valid)
  then have "path_normalize nm = nm"
    using nm by (simp add: path_normalize_def normalizeString_def hd_not_sep last_not_sep Let_def)
  with True nm show ?thesis by (simp add: path_join_def)
next
  case False
  from assms have nm: "nm \<noteq> []" "CHR ''/'' \<notin> set nm" by (simp_all add: valid_name_def)
  let ?p = "d @ CHR ''/'' # nm"
  have abs: "isAbsolute ?p = isAbsolute d"
    using False by (cases d) (simp_all add: isAbsolute_def)
  have "normalizeSegs a ?p = normalizeSegs a d @ [nm]" for a
    using assms nm
    by (simp add: normalizeSegs_def split_sep_append split_sep_plain normalizeStep_valid)
  then have q: "normalizeString ?p a = join_sep (normalizeSegs a d @ [nm])" for a
    by (simp add: normalizeString_def)
  have l: "last ?p \<noteq> CHR ''/''" using nm by (simp add: last_not_sep)
  have "path_normalize ?p =
      (if isAbsolute d then ''/'' else []) @ join_sep (normalizeSegs (\<not> isAbsolute d) d @ [nm])"
    using l nm by (simp add: path_normalize_def q abs join_sep_snoc_nonempty Let_def)
  with False nm show ?thesis by (simp add: path_join_def)
qed

lemma normalizeSegs_False_idem:
  "foldl (normalizeStep False) [] (normalizeSegs False d) = normalizeSegs False d"
proof -
  have "''..'' \<notin> set (normalizeSegs False d)"
    unfolding normalizeSegs_def by (rule foldl_normalizeStep_False_no_dotdot) simp
  then have "\<forall>s \<in> set (normalizeSegs False d). valid_name s"
    using normalizeSegs_seg_ok seg_ok_valid by blast
  then show ?thesis using foldl_normalizeStep_valid [of "normalizeSegs False d" False "[]"] by simp
qed

lemma segs_no_sep: "x \<in> set (normalizeSegs a d) \<Longrightarrow> x \<noteq> [] \<and> CHR ''/'' \<notin> set x"
  using normalizeSegs_seg_ok [of x a d] by (simp add: seg_ok_def)

lemma resolveSegs_path_join:
  assumes "valid_name nm"
  shows "resolveSegs wd (path_join d nm) = resolveSegs wd d @ [nm]"
proof -
  from assms have nm: "nm \<noteq> []" "CHR ''/'' \<notin> set nm" by (simp_all add: valid_name_def)
  consider "d = []" | "d \<noteq> []" "isAbsolute d" | "d \<noteq> []" "\<not> isAbsolute d" by blast
  then show ?thesis
  proof cases
    case 1
    have "resolveSegs wd nm = normalizeSegs False wd @ [nm]"
      using assms nm
      by (simp add: resolveSegs_def hd_not_sep normalizeSegs_def split_sep_append split_sep_plain
            normalizeStep_valid)
    moreover have "resolveSegs wd [] = normalizeSegs False wd"
      by (simp add: resolveSegs_def isAbsolute_def normalizeSegs_def split_sep_append
            normalizeStep_def)
    ultimately show ?thesis using 1 assms by (simp add: path_join_valid)
  next
    case 2
    let ?L = "normalizeSegs False d @ [nm]"
    have L: "?L \<noteq> []" "\<forall>x \<in> set ?L. CHR ''/'' \<notin> set x"
      using nm segs_no_sep by auto
    have pj: "path_join d nm = CHR ''/'' # join_sep ?L"
      using 2 assms by (simp add: path_join_valid)
    have "split_sep (CHR ''/'' # join_sep ?L) = [] # ?L"
      using split_sep_append [of "[]" "join_sep ?L"] split_join_sep [OF L] by simp
    then have "normalizeSegs False (CHR ''/'' # join_sep ?L) =
        foldl (normalizeStep False) [] ?L"
      by (simp add: normalizeSegs_def normalizeStep_def)
    also have "\<dots> = normalizeSegs False d @ [nm]"
      using assms by (simp add: normalizeSegs_False_idem normalizeStep_valid)
    finally show ?thesis using 2 by (simp add: pj resolveSegs_def isAbsolute_def)
  next
    case 3
    let ?L = "normalizeSegs True d @ [nm]"
    have L: "?L \<noteq> []" "\<forall>x \<in> set ?L. CHR ''/'' \<notin> set x"
      using nm segs_no_sep by auto
    have L': "\<forall>x \<in> set ?L. x \<noteq> [] \<and> CHR ''/'' \<notin> set x"
      using nm segs_no_sep by auto
    have pj: "path_join d nm = join_sep ?L"
      using 3 assms by (simp add: path_join_valid)
    have rel: "\<not> isAbsolute (join_sep ?L)"
      by (rule join_sep_not_absolute [OF L(1) L'])
    have "resolveSegs wd (join_sep ?L) =
        foldl (normalizeStep False) (normalizeSegs False wd) ?L"
      using rel split_join_sep [OF L]
      by (simp add: resolveSegs_def normalizeSegs_def split_sep_append)
    also have "\<dots> = foldl (normalizeStep False) (normalizeSegs False wd) (split_sep d) @ [nm]"
      using assms
      by (simp add: normalizeStep_valid normalizeSegs_def [of True] foldl_normalizeStep_normalized)
    also have "foldl (normalizeStep False) (normalizeSegs False wd) (split_sep d) = resolveSegs wd d"
      using 3 by (simp add: resolveSegs_def normalizeSegs_def split_sep_append)
    finally show ?thesis by (simp add: pj)
  qed
qed

lemma path_join_chain:
  assumes "\<forall>n \<in> set ns. valid_name n" and "valid_name nm"
  shows "path_join (join_sep ns) nm = join_sep (ns @ [nm])"
proof (cases "ns = []")
  case True
  with assms show ?thesis by (simp add: path_join_valid)
next
  case False
  have ns: "\<forall>x \<in> set ns. x \<noteq> [] \<and> CHR ''/'' \<notin> set x"
    using assms(1) by (simp add: valid_name_def)
  then have ne: "join_sep ns \<noteq> []" using False by (simp add: join_sep_empty_iff)
  have rel: "\<not> isAbsolute (join_sep ns)"
    by (rule join_sep_not_absolute [OF False ns])
  have "normalizeSegs True (join_sep ns) = ns"
    using split_join_sep [OF False] ns assms(1)
    by (simp add: normalizeSegs_def foldl_normalizeStep_valid)
  with ne rel assms(2) show ?thesis by (simp add: path_join_valid)
qed

lemma relativeSegs_no_dotdot:
  "''..'' \<notin> set (relativeSegs C T) \<Longrightarrow> T = C @ relativeSegs C T"
  by (induction C T rule: relativeSegs.induct) (auto split: if_splits)

lemma relativeSegs_same [simp]: "relativeSegs C C = []"
  by (induction C) simp_all

lemma path_relative_segs:
  "path_relative wd from to = join_sep (relativeSegs (resolveSegs wd from) (resolveSegs wd to))"
  by (simp add: path_relative_def)

lemma relativeSegs_set:
  "x \<in> set (relativeSegs C T) \<Longrightarrow> x = ''..'' \<or> x \<in> set T"
  by (induction C T rule: relativeSegs.induct) (auto split: if_splits)

lemma resolveSegs_no_sep: "x \<in> set (resolveSegs wd p) \<Longrightarrow> x \<noteq> [] \<and> CHR ''/'' \<notin> set x"
  unfolding resolveSegs_def by (rule segs_no_sep)

text \<open>If the path from the working directory to a file under \<open>R\<close> is just the names below
  \<open>R\<close>, then \<open>R\<close> is the working directory.\<close>

lemma relative_eq_chain:
  assumes "join_sep (relativeSegs (resolveSegs wd wd) (resolveSegs wd d @ ch)) = join_sep ch"
    and "\<forall>n \<in> set ch. valid_name n"
  shows "resolveSegs wd d = resolveSegs wd wd"
proof -
  let ?C = "resolveSegs wd wd" and ?R = "resolveSegs wd d"
  have ch: "\<forall>x \<in> set ch. x \<noteq> [] \<and> CHR ''/'' \<notin> set x"
    using assms(2) by (simp add: valid_name_def)
  have "\<forall>x \<in> set (relativeSegs ?C (?R @ ch)). x \<noteq> [] \<and> CHR ''/'' \<notin> set x"
    using relativeSegs_set [of _ ?C "?R @ ch"] resolveSegs_no_sep [of _ wd d] ch by fastforce
  from join_sep_inject [OF this ch assms(1)]
  have eq: "relativeSegs ?C (?R @ ch) = ch" .
  have "''..'' \<notin> set ch" using assms(2) by (auto simp add: valid_name_def)
  with eq relativeSegs_no_dotdot [of ?C "?R @ ch"] have "?R @ ch = ?C @ ch" by simp
  then show ?thesis by simp
qed

section \<open>The paths of the two formats\<close>

lemma appendChild_Element [simp]:
  "appendChild (Element t a cs) child = Element t a (cs @ [child])"
  by (simp add: appendChild_def)

lemma fold_buildNode_aux:
  assumes "\<And>x t a cs. x \<in> set ns \<Longrightarrow> buildNode x (Element t a cs) = Element t a (cs @ [node_xml x])"
  shows "fold buildNode ns (Element t a cs) = Element t a (cs @ map node_xml ns)"
  using assms by (induction ns arbitrary: cs) simp_all

lemma buildNode_Element:
  "buildNode n (Element t a cs) = Element t a (cs @ [node_xml n])"
proof (induction n arbitrary: t a cs)
  case (Directory nm p ch)
  show ?case
    using fold_buildNode_aux [of ch, OF Directory.IH] by (simp add: ele_def)
next
  case (File nm p c)
  show ?case by (simp add: ele_def txt'_def)
qed

lemma buildXmlDom_eq: "buildXmlDom files = Element ''repository'' [] (map node_xml files)"
  using fold_buildNode_aux [of files "''repository''" "[]" "[]"]
  by (simp add: buildXmlDom_def ele_def buildNode_Element)

lemma xml_file_paths_node_xml:
  "concat (map (\<lambda>n. xml_file_paths (node_xml n)) files) = map path (files_of files)"
  by (induction files rule: files_of.induct) (simp_all add: comp_def)

lemma xml_file_paths_buildXmlDom:
  "xml_file_paths (buildXmlDom files) = map path (files_of files)"
  using xml_file_paths_node_xml [of files] by (simp add: buildXmlDom_eq comp_def)

lemma txt_entries_chains:
  "valid_names nodes \<Longrightarrow> \<forall>n \<in> set ns. valid_name n \<Longrightarrow>
     map fst (txt_entries (join_sep ns) nodes) = map (\<lambda>ch. join_sep (ns @ ch)) (name_chains nodes)"
proof (induction nodes arbitrary: ns rule: name_chains.induct)
  case 1
  show ?case by simp
next
  case (2 nm p ch rest)
  from "2.prems" have j: "path_join (join_sep ns) nm = join_sep (ns @ [nm])"
    by (simp add: path_join_chain)
  have "map fst (txt_entries (join_sep (ns @ [nm])) ch) =
      map (\<lambda>c. join_sep ((ns @ [nm]) @ c)) (name_chains ch)"
    using "2.prems" by (intro "2.IH"(1)) auto
  moreover have "map fst (txt_entries (join_sep ns) rest) =
      map (\<lambda>c. join_sep (ns @ c)) (name_chains rest)"
    using "2.prems" by (intro "2.IH"(2)) auto
  ultimately show ?case by (simp add: j comp_def)
next
  case (3 nm p c rest)
  from "3.prems" have j: "path_join (join_sep ns) nm = join_sep (ns @ [nm])"
    by (simp add: path_join_chain)
  have "map fst (txt_entries (join_sep ns) rest) =
      map (\<lambda>c. join_sep (ns @ c)) (name_chains rest)"
    using "3.prems" by (intro "3.IH") auto
  then show ?case by (simp add: j)
qed

lemma produced_stored_paths:
  "list_all (produced pf ex lim d) nodes \<Longrightarrow> valid_names nodes \<Longrightarrow>
     map path (files_of nodes) =
       map (\<lambda>ch. join_sep (relativeSegs (resolveSegs (cwd pf) (cwd pf))
                              (resolveSegs (cwd pf) d @ ch)))
           (name_chains nodes)"
proof (induction nodes arbitrary: d rule: name_chains.induct)
  case 1
  show ?case by simp
next
  case (2 nm p ch rest)
  from "2.prems" have v: "valid_name nm" by simp
  have "map path (files_of ch) =
      map (\<lambda>c. join_sep (relativeSegs (resolveSegs (cwd pf) (cwd pf))
                  (resolveSegs (cwd pf) (path_join d nm) @ c))) (name_chains ch)"
    using "2.prems" by (intro "2.IH"(1)) auto
  moreover have "map path (files_of rest) =
      map (\<lambda>c. join_sep (relativeSegs (resolveSegs (cwd pf) (cwd pf))
                  (resolveSegs (cwd pf) d @ c))) (name_chains rest)"
    using "2.prems" by (intro "2.IH"(2)) auto
  ultimately show ?case by (simp add: resolveSegs_path_join [OF v] comp_def)
next
  case (3 nm p c rest)
  from "3.prems" have v: "valid_name nm" by simp
  have "map path (files_of rest) =
      map (\<lambda>c. join_sep (relativeSegs (resolveSegs (cwd pf) (cwd pf))
                  (resolveSegs (cwd pf) d @ c))) (name_chains rest)"
    using "3.prems" by (intro "3.IH") auto
  moreover have "p = join_sep (relativeSegs (resolveSegs (cwd pf) (cwd pf))
                  (resolveSegs (cwd pf) d @ [nm]))"
    using "3.prems" by (simp add: path_relative_segs resolveSegs_path_join [OF v])
  ultimately show ?case by simp
qed

lemma produced_located_paths:
  "list_all (produced pf ex lim d) nodes \<Longrightarrow>
     map path (files_of nodes) =
       map (\<lambda>e. path_relative (cwd pf) (cwd pf) (fst e)) (located d nodes)"
  by (induction d nodes rule: located.induct) simp_all

lemma name_chains_valid:
  "valid_names nodes \<Longrightarrow> ch \<in> set (name_chains nodes) \<Longrightarrow> \<forall>n \<in> set ch. valid_name n"
  by (induction nodes arbitrary: ch rule: name_chains.induct) auto

lemma list_all2_map_same:
  "list_all2 P (map f xs) (map g xs) \<longleftrightarrow> (\<forall>x \<in> set xs. P (f x) (g x))"
  by (induction xs) simp_all

lemma buildTxtOutput_push_entries:
  "buildTxtOutput_push files out parentPath =
     out @ concat (map (\<lambda>e. [txt_header (fst e), snd e @ ''\<newline>'']) (txt_entries parentPath files))"
  by (induction files out parentPath rule: buildTxtOutput_push.induct)
     (simp_all add: txt_header_def)

lemma txt_headers_blocks:
  "txt_headers (concat (map (\<lambda>e. [f e, g e]) es)) = map f es"
  by (induction es) simp_all

lemma txt_header_inject: "txt_header p = txt_header q \<longleftrightarrow> p = q"
  by (simp add: txt_header_def)

lemma txt_entries_zip:
  assumes "valid_names nodes"
  shows "txt_entries [] nodes = zip (map join_sep (name_chains nodes)) (map content (files_of nodes))"
proof -
  have "txt_entries [] nodes = zip (map fst (txt_entries [] nodes)) (map snd (txt_entries [] nodes))"
    by (simp add: zip_map_fst_snd)
  also have "map fst (txt_entries [] nodes) = map join_sep (name_chains nodes)"
    using txt_entries_chains [OF assms, of "[]"] by simp
  also have "map snd (txt_entries [] nodes) = map content (files_of nodes)"
    by (rule txt_entries_contents)
  finally show ?thesis .
qed

text \<open>
  C10. For the \<open>File\<close> nodes of a tree that the walker returns, in pre-order: the
  \<^verbatim>\<open>path\<close> attributes of the \<^verbatim>\<open>file\<close> elements are the stored paths, each the path from
  the working directory to the file; the text output is made of the names and the
  contents alone, and the header lines that \<open>buildTxtOutput\<close> pushes carry the names from
  the top of the tree down to the file, joined, whatever the stored paths are. When the
  root of the walk and the working directory resolve to different directories, no header
  line carries the path that the \<^verbatim>\<open>file\<close> element of the same file has. The names are
  those of a directory listing.
\<close>

theorem output_paths_differ:
  assumes "walkDir n pf dir ex lim [] = Some nodes" and "valid_names nodes"
    and "path_resolve (cwd pf) dir \<noteq> path_resolve (cwd pf) (cwd pf)"
  shows "xml_file_paths (buildXmlDom nodes) = map path (files_of nodes) \<and>
         map path (files_of nodes) =
           map (\<lambda>e. path_relative (cwd pf) (cwd pf) (fst e)) (located dir nodes) \<and>
         buildTxtOutput nodes [] [] =
           concat (map2 (\<lambda>ch f. txt_header (join_sep ch) @ content f @ ''\<newline>'')
                     (name_chains nodes) (files_of nodes)) \<and>
         txt_headers (buildTxtOutput_push nodes [] []) =
           map (\<lambda>ch. txt_header (join_sep ch)) (name_chains nodes) \<and>
         list_all2 (\<lambda>x h. h \<noteq> txt_header x)
           (xml_file_paths (buildXmlDom nodes)) (txt_headers (buildTxtOutput_push nodes [] []))"
proof -
  let ?C = "resolveSegs (cwd pf) (cwd pf)" and ?R = "resolveSegs (cwd pf) dir"
  have pr: "list_all (produced pf ex lim dir) nodes"
    using walkDir_produced [OF assms(1)] by simp
  have x: "xml_file_paths (buildXmlDom nodes) = map path (files_of nodes)"
    by (rule xml_file_paths_buildXmlDom)
  have l: "map path (files_of nodes) =
           map (\<lambda>e. path_relative (cwd pf) (cwd pf) (fst e)) (located dir nodes)"
    by (rule produced_located_paths [OF pr])
  have z: "txt_entries [] nodes =
      zip (map join_sep (name_chains nodes)) (map content (files_of nodes))"
    by (rule txt_entries_zip [OF assms(2)])
  have "buildTxtOutput nodes [] [] = concat (map txt_block (txt_entries [] nodes))"
    by (simp add: buildTxtOutput_def concat_buildTxtOutput_push)
  also have "map txt_block (txt_entries [] nodes) =
      map2 (\<lambda>ch f. txt_header (join_sep ch) @ content f @ ''\<newline>'')
        (name_chains nodes) (files_of nodes)"
    unfolding z by (simp add: zip_map1 zip_map2 txt_block_def txt_header_def case_prod_unfold)
  finally have b: "buildTxtOutput nodes [] [] =
      concat (map2 (\<lambda>ch f. txt_header (join_sep ch) @ content f @ ''\<newline>'')
                (name_chains nodes) (files_of nodes))" .
  have "txt_headers (buildTxtOutput_push nodes [] []) =
      map txt_header (map fst (txt_entries [] nodes))"
    by (simp add: buildTxtOutput_push_entries txt_headers_blocks)
  also have "map fst (txt_entries [] nodes) = map join_sep (name_chains nodes)"
    using txt_entries_chains [OF assms(2), of "[]"] by simp
  finally have h: "txt_headers (buildTxtOutput_push nodes [] []) =
      map (\<lambda>ch. txt_header (join_sep ch)) (name_chains nodes)"
    by (simp add: comp_def)
  have s: "map path (files_of nodes) =
      map (\<lambda>ch. join_sep (relativeSegs ?C (?R @ ch))) (name_chains nodes)"
    by (rule produced_stored_paths [OF pr assms(2)])
  have ne: "?R \<noteq> ?C" using assms(3) by (auto simp add: path_resolve_def)
  have "join_sep (relativeSegs ?C (?R @ ch)) \<noteq> join_sep ch" if "ch \<in> set (name_chains nodes)" for ch
    using relative_eq_chain [of "cwd pf" dir ch] name_chains_valid [OF assms(2) that] ne by blast
  then have "list_all2 (\<lambda>x h. h \<noteq> txt_header x) (map path (files_of nodes))
      (map (\<lambda>ch. txt_header (join_sep ch)) (name_chains nodes))"
    unfolding s by (simp add: list_all2_map_same txt_header_inject eq_commute)
  then have d: "list_all2 (\<lambda>x h. h \<noteq> txt_header x)
           (xml_file_paths (buildXmlDom nodes)) (txt_headers (buildTxtOutput_push nodes [] []))"
    by (simp only: x h)
  from x l b h d show ?thesis by (intro conjI)
qed

lemma relativeSegs_append: "relativeSegs C (C @ ch) = ch"
proof (induction C)
  case Nil
  show ?case by (cases ch) simp_all
next
  case (Cons c C)
  then show ?case by simp
qed

text \<open>When the root is the working directory, both formats carry the same paths.\<close>

lemma output_paths_agree_at_cwd:
  assumes "walkDir n pf dir ex lim [] = Some nodes" and "valid_names nodes"
    and "resolveSegs (cwd pf) dir = resolveSegs (cwd pf) (cwd pf)"
  shows "xml_file_paths (buildXmlDom nodes) = map fst (txt_entries [] nodes)"
proof -
  have pr: "list_all (produced pf ex lim dir) nodes"
    using walkDir_produced [OF assms(1)] by simp
  show ?thesis
    using produced_stored_paths [OF pr assms(2)] txt_entries_chains [OF assms(2), of "[]"]
    by (simp add: xml_file_paths_buildXmlDom assms(3) relativeSegs_append)
qed

text \<open>
  The example, walked from \<^verbatim>\<open>/work/repo\<close> with \<^verbatim>\<open>/work\<close> as the working directory.
\<close>

theorem output_paths_differ_witness:
  "walkDir 3 (demo ''/work'') ''/work/repo'' [''.git''] 1048576 [] =
     Some [Directory ''src'' ''repo/src'' [File ''a.txt'' ''repo/src/a.txt'' ''hello''],
           Directory ''locked'' ''repo/locked'' [],
           File ''README.md'' ''repo/README.md'' ''# hi\<newline>''] \<and>
   path_resolve ''/work'' ''/work/repo'' = ''/work/repo'' \<and>
   path_resolve ''/work'' ''/work'' = ''/work'' \<and>
   xml_file_paths (buildXmlDom
     [Directory ''src'' ''repo/src'' [File ''a.txt'' ''repo/src/a.txt'' ''hello''],
      Directory ''locked'' ''repo/locked'' [],
      File ''README.md'' ''repo/README.md'' ''# hi\<newline>'']) =
     [''repo/src/a.txt'', ''repo/README.md''] \<and>
   buildTxtOutput
     [Directory ''src'' ''repo/src'' [File ''a.txt'' ''repo/src/a.txt'' ''hello''],
      Directory ''locked'' ''repo/locked'' [],
      File ''README.md'' ''repo/README.md'' ''# hi\<newline>''] [] [] =
     ''--- FILE: src/a.txt ---\<newline>hello\<newline>--- FILE: README.md ---\<newline># hi\<newline>\<newline>'' \<and>
   txt_headers (buildTxtOutput_push
     [Directory ''src'' ''repo/src'' [File ''a.txt'' ''repo/src/a.txt'' ''hello''],
      Directory ''locked'' ''repo/locked'' [],
      File ''README.md'' ''repo/README.md'' ''# hi\<newline>''] [] []) =
     [''--- FILE: src/a.txt ---\<newline>'', ''--- FILE: README.md ---\<newline>''] \<and>
   list_all2 (\<lambda>x h. h \<noteq> txt_header x) [''repo/src/a.txt'', ''repo/README.md'']
     [''--- FILE: src/a.txt ---\<newline>'', ''--- FILE: README.md ---\<newline>'']"
proof -
  let ?pf = "demo ''/work''"
  let ?nodes = "[Directory ''src'' ''repo/src'' [File ''a.txt'' ''repo/src/a.txt'' ''hello''],
           Directory ''locked'' ''repo/locked'' [],
           File ''README.md'' ''repo/README.md'' ''# hi\<newline>'']"
  have w: "walkDir 3 ?pf ''/work/repo'' [''.git''] 1048576 [] = Some ?nodes"
    by (simp add: walk_eval demo_defs path_defs)
  have v: "valid_names ?nodes" by (simp add: valid_name_def)
  have r1: "path_resolve ''/work'' ''/work/repo'' = ''/work/repo''"
    by (simp add: path_resolve_def path_defs)
  have r2: "path_resolve ''/work'' ''/work'' = ''/work''"
    by (simp add: path_resolve_def path_defs)
  have ne: "path_resolve (cwd ?pf) ''/work/repo'' \<noteq> path_resolve (cwd ?pf) (cwd ?pf)"
    by (simp add: demo_def r1 r2)
  note t = output_paths_differ [OF w v ne]
  have "map path (files_of ?nodes) = [''repo/src/a.txt'', ''repo/README.md'']" by simp
  with t [THEN conjunct1]
  have x: "xml_file_paths (buildXmlDom ?nodes) = [''repo/src/a.txt'', ''repo/README.md'']"
    by (simp only:)
  have "concat (map2 (\<lambda>ch f. txt_header (join_sep ch) @ content f @ ''\<newline>'')
                     (name_chains ?nodes) (files_of ?nodes)) =
      ''--- FILE: src/a.txt ---\<newline>hello\<newline>--- FILE: README.md ---\<newline># hi\<newline>\<newline>''"
    by (simp add: txt_header_def)
  with t [THEN conjunct2, THEN conjunct2, THEN conjunct1]
  have b: "buildTxtOutput ?nodes [] [] =
      ''--- FILE: src/a.txt ---\<newline>hello\<newline>--- FILE: README.md ---\<newline># hi\<newline>\<newline>''"
    by (simp only:)
  have "map (\<lambda>ch. txt_header (join_sep ch)) (name_chains ?nodes) =
      [''--- FILE: src/a.txt ---\<newline>'', ''--- FILE: README.md ---\<newline>'']"
    by (simp add: txt_header_def)
  with t [THEN conjunct2, THEN conjunct2, THEN conjunct2, THEN conjunct1]
  have h: "txt_headers (buildTxtOutput_push ?nodes [] []) =
      [''--- FILE: src/a.txt ---\<newline>'', ''--- FILE: README.md ---\<newline>'']"
    by (simp only:)
  from t have "list_all2 (\<lambda>x h. h \<noteq> txt_header x) (xml_file_paths (buildXmlDom ?nodes))
      (txt_headers (buildTxtOutput_push ?nodes [] []))"
    by (elim conjE)
  then have "list_all2 (\<lambda>x h. h \<noteq> txt_header x) [''repo/src/a.txt'', ''repo/README.md'']
      [''--- FILE: src/a.txt ---\<newline>'', ''--- FILE: README.md ---\<newline>'']"
    by (simp only: x h)
  with w r1 r2 x b h show ?thesis by (intro conjI)
qed

section \<open>The markup output read back\<close>

subsection \<open>Escaping\<close>






lemma unescape_entity:
  "xml_unescape (''&amp;'' @ t) = CHR ''&'' # xml_unescape t"
  "xml_unescape (''&lt;'' @ t) = CHR ''<'' # xml_unescape t"
  "xml_unescape (''&gt;'' @ t) = CHR ''>'' # xml_unescape t"
  "xml_unescape (''&quot;'' @ t) = CHR 0x22 # xml_unescape t"
  "xml_unescape (''&apos;'' @ t) = CHR 0x27 # xml_unescape t"
  by (simp_all add: decode_entity_def)










subsection \<open>Tags and text\<close>







lemma indent_plain: "CHR ''<'' \<notin> set (CHR 0x0A # indent i)" "CHR ''&'' \<notin> set (CHR 0x0A # indent i)"
  by (simp_all add: indent_def)








subsection \<open>Attributes and tags\<close>










subsection \<open>Elements and nodes\<close>







subsection \<open>The whole document\<close>






text \<open>The output for a small tree, and for no nodes at all.\<close>

lemma buildXmlTree_example:
  "buildXmlTree [Directory ''src'' ''src'' [File ''a.txt'' ''src/a.txt'' ''a<b&c'']] =
     ''<?xml version=\"1.0\" encoding=\"UTF-8\"?>\<newline><repository>\<newline>  <directory name=\"src\" path=\"src\">\<newline>    <file name=\"a.txt\" path=\"src/a.txt\">a&lt;b&amp;c</file>\<newline>  </directory>\<newline></repository>''"
  by (simp add: buildXmlTree_def xml_end_def buildXmlDom_def ele_def txt'_def write_attr_def
        xml_escape_def escape_char_def is_control_def indent_def eval_nat_numeral)

lemma buildXmlTree_empty:
  "buildXmlTree [] = ''<?xml version=\"1.0\" encoding=\"UTF-8\"?>\<newline><repository/>''"
  by (simp add: buildXmlTree_def xml_end_def buildXmlDom_def ele_def)


section \<open>The serializers on the trees of the walker\<close>

lemma buildTxtOutput_dyn_loop_tree:
  "buildTxtOutput_dyn_loop (map js_node files) out parentPath =
     Inr (buildTxtOutput_push files out parentPath)"
  by (induction files out parentPath rule: buildTxtOutput_push.induct) simp_all

lemma buildNode_each_tree_aux:
  assumes "\<And>n parent. n \<in> set ns \<Longrightarrow> buildNode_dyn other (js_node n) parent = Inr (buildNode n parent)"
  shows "buildNode_each other (map js_node ns) xmlParent = Inr (fold buildNode ns xmlParent)"
  using assms by (induction ns arbitrary: xmlParent) (simp_all del: buildNode_dyn.simps)

lemma buildNode_dyn_tree:
  "buildNode_dyn other (js_node n) xmlParent = Inr (buildNode n xmlParent)"
proof (induction n arbitrary: xmlParent)
  case (Directory nm p ch)
  have "buildNode_each other (map js_node ch) e = Inr (fold buildNode ch e)" for e
    by (rule buildNode_each_tree_aux) (rule Directory.IH)
  then show ?case by (simp add: ele_dyn_def)
next
  case (File nm p c)
  show ?case by (simp add: ele_dyn_def txt_dyn_def)
qed

lemma buildNode_each_tree:
  "buildNode_each other (map js_node ns) xmlParent = Inr (fold buildNode ns xmlParent)"
  by (rule buildNode_each_tree_aux) (rule buildNode_dyn_tree)

text \<open>
  C2. Both serializers return a string for every tree, whatever characters its names,
  paths and contents hold: on the objects of a tree none of the failing branches is
  reached (no property is read of \<^verbatim>\<open>undefined\<close>, every \<^verbatim>\<open>children\<close> is an array, every
  \<^verbatim>\<open>name\<close> a string), and the string is a function of the tree: of its nodes and, for
  \<open>buildTxtOutput\<close>, of the array and the prefix it is given. For the markup this holds
  whatever the library does with values that are not strings. Memory is not bounded here.
\<close>

theorem serializers_total:
  "buildTxtOutput_dyn (Arr (map js_node files)) out parentPath =
     Inr (buildTxtOutput files out parentPath) \<and>
   buildXmlTree_dyn other (Arr (map js_node files)) = Inr (buildXmlTree files)"
  by (simp add: buildTxtOutput_dyn_def buildTxtOutput_def buildTxtOutput_dyn_loop_tree
      buildXmlTree_dyn_def buildXmlTree_def buildXmlDom_def buildNode_each_tree)

text \<open>
  On values that are not trees the serializers do fail: no array, a file without a
  name, an element that is \<^verbatim>\<open>undefined\<close>, a string in place of the array, a directory
  without children.
\<close>

lemma serializers_fail_elsewhere:
  "buildTxtOutput_dyn Undefined [] [] = Inl TypeError \<and>
   buildTxtOutput_dyn (Arr [Obj [(''type'', Str ''file''), (''content'', Str ''x'')]]) [] [] =
     Inl TypeError \<and>
   buildTxtOutput_dyn (Arr [Undefined]) [] [] = Inl TypeError \<and>
   buildTxtOutput_dyn (Str ''ab'') [] [] = Inl TypeError \<and>
   buildXmlTree_dyn other (Str ''ab'') = Inl TypeError \<and>
   buildXmlTree_dyn other
     (Arr [Obj [(''type'', Str ''directory''), (''name'', Str ''src''), (''path'', Str ''src'')]]) =
     Inl TypeError"
  by (simp add: buildTxtOutput_dyn_def buildXmlTree_dyn_def ele_dyn_def)

text \<open>
  A content that is not a string is written as the string that \<^verbatim>\<open>+\<close> makes of it, and a
  node without \<^verbatim>\<open>type\<close> is taken for a file.
\<close>

lemma buildTxtOutput_dyn_coerces:
  "buildTxtOutput_dyn
     (Arr [Obj [(''type'', Str ''file''), (''name'', Str ''a''),
                (''content'', Arr [Str ''x'', Undefined, Arr [Str ''y'', Str ''z'']])],
           Obj [(''name'', Str ''b'')]]) [] [] =
     Inr ''--- FILE: a ---\<newline>x,,y,z\<newline>--- FILE: b ---\<newline>undefined\<newline>''"
  by (simp add: buildTxtOutput_dyn_def path_defs)

end
